theory Spec2Isabelle
  imports Complex_Main "HOL-Library.Multiset"
begin

section \<open>Data model: the SQLite tables of the server\<close>

text \<open>
  The server under verification is \<^verbatim>\<open>server/_backup_20260118_230749/src/index.js\<close>
  together with the schema it runs on (the \<^verbatim>\<open>db.js\<close> that declares
  \<^verbatim>\<open>daily_tasks.day\<close> and \<^verbatim>\<open>referral_rewards\<close>).
  Each table is the list of its rows in rowid order; only the columns the handlers
  read or write are kept. Row ids are natural numbers (AUTOINCREMENT starts at 1),
  amounts are SQLite INTEGERs, instants are milliseconds since the epoch.
\<close>

record user =
  user_id :: nat
  referred_by :: "nat option"
  balance_ksh :: int
  bonus_ksh :: int
  delete_effective_at :: "nat option"

record task =
  task_id :: nat
  category :: string
  reward_ksh :: int
  active :: bool

record daily_task =
  d_user :: nat
  d_day :: string
  d_task :: nat

record task_completion =
  c_user :: nat
  c_task :: nat
  c_reward :: int
  c_answer :: string
  c_created_at :: nat

record withdrawal =
  w_user :: nat
  w_amount :: int
  w_phone :: string
  w_method :: string
  w_status :: string

record referral_reward =
  rr_referrer :: nat
  rr_referred :: nat

record db =
  users :: "user list"
  tasks :: "task list"
  daily_tasks :: "daily_task list"
  task_completions :: "task_completion list"
  withdrawals :: "withdrawal list"
  referral_rewards :: "referral_reward list"

text \<open>
  What a handler does with its request: \<open>Json v\<close> is \<^verbatim>\<open>res.json\<close>,
  \<open>Reject code msg\<close> is \<^verbatim>\<open>res.status(code).json({error: msg})\<close>, and
  \<open>Thrown\<close> is an exception that leaves the async handler (a rejected store call or a
  TypeError); whatever was written before it stays written, since the handlers of this
  revision open no transaction.
\<close>

datatype 'a response = Json 'a | Reject nat string | Thrown

section \<open>Clock and day key\<close>

text \<open>
  \<^verbatim>\<open>new Date().toISOString()\<close> and SQLite's \<^verbatim>\<open>date()\<close> both print the proleptic
  Gregorian date of a UTC day number. The day number is split into a year and a rest by
  walking whole years from 1970, then into a month and a day by walking whole months.
\<close>

definition leap_year :: "nat \<Rightarrow> bool" where
  "leap_year y = (y mod 4 = 0 \<and> (y mod 100 \<noteq> 0 \<or> y mod 400 = 0))"

definition days_in_year :: "nat \<Rightarrow> nat" where
  "days_in_year y = (if leap_year y then 366 else 365)"

definition days_in_month :: "nat \<Rightarrow> nat \<Rightarrow> nat" where
  "days_in_month y m =
     (if m = 2 then (if leap_year y then 29 else 28)
      else if m = 4 \<or> m = 6 \<or> m = 9 \<or> m = 11 then 30 else 31)"

function year_from :: "nat \<Rightarrow> nat \<Rightarrow> nat \<times> nat" where
  "year_from y n = (if n < days_in_year y then (y, n) else year_from (Suc y) (n - days_in_year y))"
  by pat_completeness auto
termination
  by (relation "measure (\<lambda>(y, n). n)") (auto simp: days_in_year_def)

function month_from :: "nat \<Rightarrow> nat \<Rightarrow> nat \<Rightarrow> nat \<times> nat" where
  "month_from y m n =
     (if n < days_in_month y m then (m, n) else month_from y (Suc m) (n - days_in_month y m))"
  by pat_completeness auto
termination
  by (relation "measure (\<lambda>(y, m, n). n)") (auto simp: days_in_month_def)

declare year_from.simps [simp del]
declare month_from.simps [simp del]

definition date_of_day :: "nat \<Rightarrow> nat \<times> nat \<times> nat" where
  "date_of_day n =
     (case year_from 1970 n of (y, r) \<Rightarrow>
        (case month_from y 1 r of (m, d) \<Rightarrow> (y, m, Suc d)))"

definition digit :: "nat \<Rightarrow> char" where
  "digit n = ''0123456789'' ! (n mod 10)"

definition pad2 :: "nat \<Rightarrow> string" where
  "pad2 n = [digit (n div 10), digit n]"

definition pad4 :: "nat \<Rightarrow> string" where
  "pad4 n = [digit (n div 1000), digit (n div 100), digit (n div 10), digit n]"

definition pad6 :: "nat \<Rightarrow> string" where
  "pad6 n = [digit (n div 100000), digit (n div 10000)] @ pad4 n"

text \<open>
  The date part of \<^verbatim>\<open>toISOString()\<close>: four digits for the years 0 to 9999, a sign and
  six digits beyond.
\<close>

definition iso_date :: "nat \<times> nat \<times> nat \<Rightarrow> string" where
  "iso_date ymd =
     (case ymd of (y, m, d) \<Rightarrow>
        (if y \<le> 9999 then pad4 y else CHR ''+'' # pad6 y) @ ''-'' @ pad2 m @ ''-'' @ pad2 d)"

text \<open>
  \<^verbatim>\<open>function dayUTC() { return new Date().toISOString().slice(0, 10); }\<close>, with the
  instant read from the clock passed in as milliseconds since the epoch.
\<close>

definition dayUTC :: "nat \<Rightarrow> string" where
  "dayUTC now = take 10 (iso_date (date_of_day (now div 86400000)))"

text \<open>
  SQLite keeps \<^verbatim>\<open>created_at\<close> as \<^verbatim>\<open>datetime("now")\<close>, a UTC time in whole seconds;
  \<^verbatim>\<open>date(x)\<close> is its date part.
\<close>

definition sqlite_datetime :: "nat \<Rightarrow> nat" where
  "sqlite_datetime now = now div 1000"

definition sqlite_date :: "nat \<Rightarrow> string" where
  "sqlite_date secs = (case date_of_day (secs div 86400) of (y, m, d) \<Rightarrow>
     pad4 y @ ''-'' @ pad2 m @ ''-'' @ pad2 d)"

text \<open>
  The client's countdown (\<^verbatim>\<open>untilMidnight\<close> in the Tasks page) shifts the instant by
  three hours to read a Nairobi wall clock and counts the milliseconds to the next
  midnight on it.
\<close>

definition nairobi_wall_clock :: "nat \<Rightarrow> nat" where
  "nairobi_wall_clock now = now + 3 * 3600000"

definition untilMidnight :: "nat \<Rightarrow> nat" where
  "untilMidnight now = 86400000 - nairobi_wall_clock now mod 86400000"

section \<open>Store access\<close>

definition get_user :: "db \<Rightarrow> nat \<Rightarrow> user option" where
  "get_user s i = find (\<lambda>u. user_id u = i) (users s)"

definition update_user :: "nat \<Rightarrow> (user \<Rightarrow> user) \<Rightarrow> db \<Rightarrow> db" where
  "update_user i f s = s\<lparr>users := map (\<lambda>u. if user_id u = i then f u else u) (users s)\<rparr>"

section \<open>Withdrawals and bonus redemption\<close>

text \<open>
  A balance read from the store reaches JavaScript as a number, the double nearest to
  the stored integer (ties to even): the integer itself below \<open>2 ^ 53\<close> in magnitude.
\<close>

function bit_length :: "nat \<Rightarrow> nat" where
  "bit_length n = (if n = 0 then 0 else Suc (bit_length (n div 2)))"
  by pat_completeness auto
termination
  by (relation "measure id") auto

declare bit_length.simps [simp del]

definition js_number :: "int \<Rightarrow> int" where
  "js_number i =
     (if \<bar>i\<bar> < 2 ^ 53 then i
      else
        (let e = bit_length (nat \<bar>i\<bar>) - 53;
             q = \<bar>i\<bar> div 2 ^ e;
             r = \<bar>i\<bar> mod 2 ^ e;
             up = (2 ^ e < 2 * r \<or> (2 * r = 2 ^ e \<and> odd q))
         in sgn i * ((if up then q + 1 else q) * 2 ^ e)))"

text \<open>
  \<^verbatim>\<open>balance_ksh - ?\<close> with the floored amount bound as parameter. The sqlite3 driver
  binds a number as INTEGER when it is a 32-bit integer and as REAL otherwise; with a
  REAL operand SQLite subtracts in doubles, and the integral result is stored back as
  an INTEGER.
\<close>

definition debit :: "int \<Rightarrow> int \<Rightarrow> int" where
  "debit balance x =
     (if \<bar>x\<bar> < 2 ^ 31 then balance - x else js_number (js_number balance - x))"

text \<open>
  \<^verbatim>\<open>app.post("/api/withdrawals")\<close>. The amount is the JSON number of the request body,
  a finite double and so a rational; zod's \<^verbatim>\<open>z.number().positive()\<close> lets fractions
  through, and the handler floors the amount for the row and for the debit. The two
  writes are two autocommitted statements inside one \<^verbatim>\<open>try\<close>: 1 the INSERT of the
  pending row, 2 the UPDATE of the balance. \<open>flt\<close> names the write the store rejects
  (\<open>None\<close>: neither); the \<^verbatim>\<open>catch\<close> answers 400 and undoes nothing.
\<close>

definition post_withdrawals ::
    "nat option \<Rightarrow> nat \<Rightarrow> rat \<Rightarrow> string \<Rightarrow> string \<Rightarrow> db \<Rightarrow> unit response \<times> db" where
  "post_withdrawals flt uid amount phone method s =
     (if \<not> (0 < amount \<and> 6 \<le> length phone \<and> 2 \<le> length method)
      then (Reject 400 ''ZodError'', s)
      else case get_user s uid of
        None \<Rightarrow> (Reject 400 ''User not found'', s)
      | Some u \<Rightarrow>
          if of_int (js_number (balance_ksh u)) < amount
          then (Reject 400 ''Insufficient balance'', s)
          else if flt = Some 1 then (Reject 400 ''SQLITE_ERROR'', s)
          else
            (let s1 = s\<lparr>withdrawals := withdrawals s @
                      [\<lparr>w_user = uid, w_amount = \<lfloor>amount\<rfloor>, w_phone = phone,
                        w_method = method, w_status = ''pending''\<rparr>]\<rparr>
             in if flt = Some 2 then (Reject 400 ''SQLITE_ERROR'', s1)
                else (Json (),
                      update_user uid
                        (\<lambda>u. u\<lparr>balance_ksh := debit (balance_ksh u) \<lfloor>amount\<rfloor>\<rparr>) s1)))"

text \<open>
  \<^verbatim>\<open>app.post("/api/referrals/redeem")\<close>: a block of 1000 moves from bonus to balance
  in one UPDATE, write 1 of this handler; it has no \<^verbatim>\<open>try\<close>, so a rejected UPDATE
  throws.
\<close>

definition post_referrals_redeem ::
    "nat option \<Rightarrow> nat \<Rightarrow> db \<Rightarrow> (int \<times> int) response \<times> db" where
  "post_referrals_redeem flt uid s =
     (case get_user s uid of
        None \<Rightarrow> (Reject 400 ''User not found'', s)
      | Some u \<Rightarrow>
          if bonus_ksh u < 1000 then (Reject 400 ''Bonus must reach KSH 1000 to redeem'', s)
          else if flt = Some 1 then (Thrown, s)
          else
            (let s1 = update_user uid
                       (\<lambda>u. u\<lparr>bonus_ksh := bonus_ksh u - 1000, balance_ksh := balance_ksh u + 1000\<rparr>) s
             in (case get_user s1 uid of
                   None \<Rightarrow> (Thrown, s1)
                 | Some u' \<Rightarrow> (Json (balance_ksh u', bonus_ksh u'), s1))))"

section \<open>Account purge\<close>

text \<open>
  \<^verbatim>\<open>purgeDeletedAccounts\<close>: the accounts whose \<^verbatim>\<open>delete_effective_at\<close> is set and,
  cut to whole seconds by \<^verbatim>\<open>datetime()\<close>, not after now; for each of them the five
  DELETE statements of the loop body.
\<close>

definition doomed :: "nat \<Rightarrow> db \<Rightarrow> nat list" where
  "doomed now s =
     map user_id (filter (\<lambda>u. case delete_effective_at u of
                                 None \<Rightarrow> False
                               | Some e \<Rightarrow> sqlite_datetime e \<le> sqlite_datetime now) (users s))"

definition purge_user :: "nat \<Rightarrow> db \<Rightarrow> db" where
  "purge_user i s =
     s\<lparr>task_completions := filter (\<lambda>c. c_user c \<noteq> i) (task_completions s),
       withdrawals := filter (\<lambda>w. w_user w \<noteq> i) (withdrawals s),
       daily_tasks := filter (\<lambda>d. d_user d \<noteq> i) (daily_tasks s),
       referral_rewards :=
         filter (\<lambda>r. \<not> (rr_referrer r = i \<or> rr_referred r = i)) (referral_rewards s),
       users := filter (\<lambda>u. user_id u \<noteq> i) (users s)\<rparr>"

definition purgeDeletedAccounts :: "nat \<Rightarrow> db \<Rightarrow> db" where
  "purgeDeletedAccounts now s = fold purge_user (doomed now s) s"

section \<open>Daily tasks\<close>

text \<open>
  The rows of \<^verbatim>\<open>SELECT t.* FROM daily_tasks d JOIN tasks t ON t.id = d.task_id
  WHERE d.user_id = ? AND d.day = ?\<close>. The query has no ORDER BY; SQLite finds the
  assignment rows of the user and day through the index of
  \<^verbatim>\<open>UNIQUE(user_id, day, task_id)\<close>, that is by ascending task id, and joins each
  to its task.
\<close>

definition todays_tasks :: "db \<Rightarrow> nat \<Rightarrow> string \<Rightarrow> task list" where
  "todays_tasks s userId today =
     concat (map (\<lambda>d. filter (\<lambda>t. task_id t = d_task d) (tasks s))
                 (sort_key d_task
                    (filter (\<lambda>d. d_user d = userId \<and> d_day d = today) (daily_tasks s))))"

text \<open>\<^verbatim>\<open>INSERT OR IGNORE\<close> under \<^verbatim>\<open>UNIQUE(user_id, day, task_id)\<close>.\<close>

definition insert_or_ignore_daily :: "daily_task \<Rightarrow> db \<Rightarrow> db" where
  "insert_or_ignore_daily d s =
     (if d \<in> set (daily_tasks s) then s else s\<lparr>daily_tasks := daily_tasks s @ [d]\<rparr>)"

text \<open>
  \<^verbatim>\<open>ensureDailyTasks(userId)\<close>. \<^verbatim>\<open>ORDER BY RANDOM()\<close> is the parameter \<open>rnd\<close>, the
  order this call's draw puts the active tasks in.
\<close>

definition ensureDailyTasks ::
    "(task list \<Rightarrow> task list) \<Rightarrow> nat \<Rightarrow> nat \<Rightarrow> db \<Rightarrow> task list \<times> db" where
  "ensureDailyTasks rnd now userId s =
     (let today = dayUTC now;
          existing = todays_tasks s userId today
      in if 5 \<le> length existing then (take 5 existing, s)
         else
           (let s1 = s\<lparr>daily_tasks :=
                        filter (\<lambda>d. \<not> (d_user d = userId \<and> d_day d = today)) (daily_tasks s)\<rparr>;
                picked = take 5 (rnd (filter active (tasks s1)));
                s2 = fold (\<lambda>t. insert_or_ignore_daily
                                  \<lparr>d_user = userId, d_day = today, d_task = task_id t\<rparr>) picked s1
            in (picked, s2)))"

text \<open>The completion rows of a user that \<^verbatim>\<open>date(created_at) = date("now")\<close> selects.\<close>

definition completions_today :: "db \<Rightarrow> nat \<Rightarrow> nat \<Rightarrow> task_completion list" where
  "completions_today s uid now =
     filter (\<lambda>c. c_user c = uid \<and>
                 sqlite_date (c_created_at c) = sqlite_date (sqlite_datetime now))
            (task_completions s)"

text \<open>\<^verbatim>\<open>app.get("/api/tasks")\<close>: today's tasks, each with its \<^verbatim>\<open>completed\<close> flag.\<close>

definition get_tasks ::
    "(task list \<Rightarrow> task list) \<Rightarrow> nat \<Rightarrow> nat \<Rightarrow> db \<Rightarrow> (task \<times> bool) list response \<times> db" where
  "get_tasks rnd now uid s0 =
     (case ensureDailyTasks rnd now uid (purgeDeletedAccounts now s0) of
        (ts, s1) \<Rightarrow>
          (Json (map (\<lambda>t. (t, task_id t \<in> set (map c_task (completions_today s1 uid now)))) ts),
           s1))"

section \<open>Task completion\<close>

text \<open>
  The handler issues up to four writes, numbered in the order the source issues them:
  1 the INSERT into \<^verbatim>\<open>task_completions\<close>, 2 the UPDATE of the balance, 3 the INSERT into
  \<^verbatim>\<open>referral_rewards\<close>, 4 the UPDATE of the referrer's bonus. The parameter \<open>flt\<close>
  names the write at which the store rejects (\<open>None\<close>: the store never fails); a
  rejected \<^verbatim>\<open>await run(...)\<close> throws out of the handler.
\<close>

text \<open>
  Write 1. \<^verbatim>\<open>created_at\<close> defaults to \<^verbatim>\<open>datetime("now")\<close>, and the table is
  \<^verbatim>\<open>UNIQUE(user_id, task_id, created_at)\<close>: a second row for the same user and task
  within the same second is a constraint error.
\<close>

definition insert_completion ::
    "nat option \<Rightarrow> nat \<Rightarrow> nat \<Rightarrow> nat \<Rightarrow> int \<Rightarrow> string \<Rightarrow> db \<Rightarrow> db option" where
  "insert_completion flt now uid taskId reward answer s =
     (if flt = Some 1 then None
      else if find (\<lambda>c. c_user c = uid \<and> c_task c = taskId \<and>
                         c_created_at c = sqlite_datetime now) (task_completions s) \<noteq> None
      then None
      else Some (s\<lparr>task_completions := task_completions s @
                    [\<lparr>c_user = uid, c_task = taskId, c_reward = reward, c_answer = answer,
                      c_created_at = sqlite_datetime now\<rparr>]\<rparr>))"

text \<open>
  Lines 295 to 309, the referral reward; the result says whether a write threw.
  \<^verbatim>\<open>me.referred_by\<close> is tested for truthiness, so NULL and 0 both skip the block.
\<close>

definition referral_bonus :: "nat option \<Rightarrow> nat \<Rightarrow> db \<Rightarrow> bool \<times> db" where
  "referral_bonus flt uid s =
     (case get_user s uid of
        None \<Rightarrow> (False, s)
      | Some me \<Rightarrow>
          (case referred_by me of
             None \<Rightarrow> (False, s)
           | Some r \<Rightarrow>
               if r = 0 then (False, s)
               else if length (filter (\<lambda>c. c_user c = uid) (task_completions s)) \<noteq> 1
               then (False, s)
               else if find (\<lambda>x. rr_referrer x = r \<and> rr_referred x = uid) (referral_rewards s)
                         \<noteq> None
               then (False, s)
               else if flt = Some 3 then (True, s)
               else
                 (let s1 = s\<lparr>referral_rewards := referral_rewards s @
                              [\<lparr>rr_referrer = r, rr_referred = uid\<rparr>]\<rparr>
                  in if flt = Some 4 then (True, s1)
                     else (False, update_user r (\<lambda>u. u\<lparr>bonus_ksh := bonus_ksh u + 100\<rparr>) s1))))"

text \<open>
  \<^verbatim>\<open>app.post("/api/tasks/:id/complete")\<close>. \<open>answer\<close> is the string the handler derives
  from the body. The last read, \<^verbatim>\<open>updated.balance_ksh\<close>, is a TypeError when the user
  row is missing.
\<close>

definition post_tasks_complete ::
    "nat option \<Rightarrow> nat \<Rightarrow> nat \<Rightarrow> nat \<Rightarrow> string \<Rightarrow> db \<Rightarrow> int response \<times> db" where
  "post_tasks_complete flt now uid taskId answer s0 =
     (let s = purgeDeletedAccounts now s0
      in case find (\<lambda>t. task_id t = taskId \<and> active t) (tasks s) of
           None \<Rightarrow> (Reject 404 ''Task not found'', s)
         | Some task \<Rightarrow>
             (case find (\<lambda>d. d_user d = uid \<and> d_day d = dayUTC now \<and> d_task d = taskId)
                        (daily_tasks s) of
                None \<Rightarrow> (Reject 400 ''Task not assigned for today'', s)
              | Some assigned \<Rightarrow>
                  if 5 \<le> length (completions_today s uid now)
                  then (Reject 400 ''Daily limit reached (5 tasks/day)'', s)
                  else
                    (case insert_completion flt now uid taskId (reward_ksh task) answer s of
                       None \<Rightarrow> (Thrown, s)
                     | Some s1 \<Rightarrow>
                         if flt = Some 2 then (Thrown, s1)
                         else
                           (let s2 = update_user uid
                                       (\<lambda>u. u\<lparr>balance_ksh := balance_ksh u + reward_ksh task\<rparr>) s1
                            in case referral_bonus flt uid s2 of
                                 (threw, s3) \<Rightarrow>
                                   if threw then (Thrown, s3)
                                   else (case get_user s3 uid of
                                           None \<Rightarrow> (Thrown, s3)
                                         | Some u \<Rightarrow> (Json (balance_ksh u), s3))))))"

section \<open>Requests in sequence\<close>

text \<open>
  The requests that write to the ledger, each with what it reads from its environment
  (the clock, the draw of \<^verbatim>\<open>RANDOM()\<close>, a store failure), and the hourly sweep.
  \<open>serve\<close> runs a list of them one after the other.
\<close>

datatype request =
    Complete "nat option" nat nat nat string
  | Withdraw "nat option" nat rat string string
  | Redeem "nat option" nat
  | GetTasks "task list \<Rightarrow> task list" nat nat
  | Sweep nat

fun serve_one :: "request \<Rightarrow> db \<Rightarrow> db" where
  "serve_one (Complete flt now uid taskId answer) s =
     snd (post_tasks_complete flt now uid taskId answer s)"
| "serve_one (Withdraw flt uid amount phone method) s =
     snd (post_withdrawals flt uid amount phone method s)"
| "serve_one (Redeem flt uid) s = snd (post_referrals_redeem flt uid s)"
| "serve_one (GetTasks rnd now uid) s = snd (get_tasks rnd now uid s)"
| "serve_one (Sweep now) s = purgeDeletedAccounts now s"

definition serve :: "request list \<Rightarrow> db \<Rightarrow> db" where
  "serve reqs s = fold serve_one reqs s"

section \<open>Reading the ledger\<close>

definition balance_of :: "db \<Rightarrow> nat \<Rightarrow> int option" where
  "balance_of s i = map_option balance_ksh (get_user s i)"

definition bonus_of :: "db \<Rightarrow> nat \<Rightarrow> int option" where
  "bonus_of s i = map_option bonus_ksh (get_user s i)"

section \<open>Invariants\<close>

text \<open>
  \<open>ledger_ok\<close>: user ids are unique (\<^verbatim>\<open>id INTEGER PRIMARY KEY\<close>) and no balance or
  bonus is negative. \<open>rewards_ok\<close>: no task of the catalog carries a negative reward.
  \<open>daily_cap\<close>: no user has more than five completion rows dated the same day.
\<close>

definition ledger_ok :: "db \<Rightarrow> bool" where
  "ledger_ok s =
     (distinct (map user_id (users s)) \<and>
      list_all (\<lambda>u. 0 \<le> balance_ksh u \<and> 0 \<le> bonus_ksh u) (users s))"

definition rewards_ok :: "db \<Rightarrow> bool" where
  "rewards_ok s = list_all (\<lambda>t. 0 \<le> reward_ksh t) (tasks s)"

definition same_day_completions :: "db \<Rightarrow> nat \<Rightarrow> string \<Rightarrow> task_completion list" where
  "same_day_completions s uid day =
     filter (\<lambda>c. c_user c = uid \<and> sqlite_date (c_created_at c) = day) (task_completions s)"

definition daily_cap :: "db \<Rightarrow> bool" where
  "daily_cap s =
     list_all (\<lambda>c. length (same_day_completions s (c_user c) (sqlite_date (c_created_at c))) \<le> 5)
              (task_completions s)"

section \<open>Example state\<close>

text \<open>
  A small database used to run the handlers on concrete requests: user 1 referred users
  2 and 3, user 3's deletion date (2026-01-09) has passed by 2026-01-18, and the first
  two of the six active tasks share a category.
\<close>

definition demo_db :: db where
  "demo_db =
     \<lparr>users =
        [\<lparr>user_id = 1, referred_by = None, balance_ksh = 500, bonus_ksh = 1000,
          delete_effective_at = None\<rparr>,
         \<lparr>user_id = 2, referred_by = Some 1, balance_ksh = 100, bonus_ksh = 0,
          delete_effective_at = None\<rparr>,
         \<lparr>user_id = 3, referred_by = Some 1, balance_ksh = 40, bonus_ksh = 0,
          delete_effective_at = Some 1768000000000\<rparr>],
      tasks =
        [\<lparr>task_id = 1, category = ''audio_transcription'', reward_ksh = 10, active = True\<rparr>,
         \<lparr>task_id = 2, category = ''audio_transcription'', reward_ksh = 12, active = True\<rparr>,
         \<lparr>task_id = 3, category = ''image_caption'', reward_ksh = 15, active = True\<rparr>,
         \<lparr>task_id = 4, category = ''video_transcription'', reward_ksh = 18, active = True\<rparr>,
         \<lparr>task_id = 5, category = ''image_tagging'', reward_ksh = 10, active = True\<rparr>,
         \<lparr>task_id = 6, category = ''text_cleanup'', reward_ksh = 11, active = True\<rparr>],
      daily_tasks =
        [\<lparr>d_user = 2, d_day = ''2026-01-18'', d_task = 1\<rparr>,
         \<lparr>d_user = 2, d_day = ''2026-01-18'', d_task = 3\<rparr>,
         \<lparr>d_user = 2, d_day = ''2026-01-18'', d_task = 4\<rparr>,
         \<lparr>d_user = 3, d_day = ''2026-01-18'', d_task = 1\<rparr>],
      task_completions =
        [\<lparr>c_user = 3, c_task = 1, c_reward = 10, c_answer = ''hello'',
          c_created_at = 1767990000\<rparr>],
      withdrawals =
        [\<lparr>w_user = 3, w_amount = 10, w_phone = ''0700000000'', w_method = ''mpesa'',
          w_status = ''pending''\<rparr>],
      referral_rewards = [\<lparr>rr_referrer = 1, rr_referred = 3\<rparr>]\<rparr>"

text \<open>
  The example after user 2's first completion, of task 1 on 2026-01-18 at 20:59:59 UTC:
  user 3 is swept, user 2 holds 110, user 1's bonus is 1100 and the grant row exists.
\<close>

definition after_first :: db where
  "after_first =
     demo_db\<lparr>users :=
        [\<lparr>user_id = 1, referred_by = None, balance_ksh = 500, bonus_ksh = 1100,
          delete_effective_at = None\<rparr>,
         \<lparr>user_id = 2, referred_by = Some 1, balance_ksh = 110, bonus_ksh = 0,
          delete_effective_at = None\<rparr>],
       daily_tasks := take 3 (daily_tasks demo_db),
       task_completions :=
        [\<lparr>c_user = 2, c_task = 1, c_reward = 10, c_answer = ''hello'',
          c_created_at = 1768769999\<rparr>],
       withdrawals := [],
       referral_rewards := [\<lparr>rr_referrer = 1, rr_referred = 2\<rparr>]\<rparr>"

text \<open>The example with five tasks assigned to user 1 for 2026-01-18.\<close>

definition drawn_db :: db where
  "drawn_db =
     demo_db\<lparr>daily_tasks := daily_tasks demo_db @
       map (\<lambda>k. \<lparr>d_user = 1, d_day = ''2026-01-18'', d_task = k\<rparr>) [6, 5, 4, 3, 2]\<rparr>"

text \<open>The same state after user 2 has five completion rows dated 2026-01-18.\<close>

definition capped_db :: db where
  "capped_db =
     demo_db\<lparr>task_completions :=
       map (\<lambda>k. \<lparr>c_user = 2, c_task = Suc k, c_reward = 10, c_answer = ''done'',
                   c_created_at = 1768730000 + k\<rparr>) [0..<5]\<rparr>"

section \<open>Store lemmas\<close>

lemma find_map_update:
  assumes "\<And>u. user_id (f u) = user_id u"
  shows "find (\<lambda>u. user_id u = j) (map (\<lambda>u. if user_id u = i then f u else u) xs)
         = (if j = i then map_option f (find (\<lambda>u. user_id u = i) xs)
            else find (\<lambda>u. user_id u = j) xs)"
  using assms by (induction xs) auto

lemma get_user_update_user:
  assumes "\<And>u. user_id (f u) = user_id u"
  shows "get_user (update_user i f s) j
         = (if j = i then map_option f (get_user s i) else get_user s j)"
  using find_map_update [OF assms] by (simp add: get_user_def update_user_def)

lemma update_user_fields [simp]:
  "tasks (update_user i f s) = tasks s"
  "daily_tasks (update_user i f s) = daily_tasks s"
  "task_completions (update_user i f s) = task_completions s"
  "withdrawals (update_user i f s) = withdrawals s"
  "referral_rewards (update_user i f s) = referral_rewards s"
  by (simp_all add: update_user_def)

lemma demo_user1:
  "get_user demo_db 1 = Some \<lparr>user_id = 1, referred_by = None, balance_ksh = 500,
                               bonus_ksh = 1000, delete_effective_at = None\<rparr>"
  by (simp add: demo_db_def get_user_def)

lemma demo_user2:
  "get_user demo_db 2 = Some \<lparr>user_id = 2, referred_by = Some 1, balance_ksh = 100,
                               bonus_ksh = 0, delete_effective_at = None\<rparr>"
  by (simp add: demo_db_def get_user_def)

section \<open>Withdrawals\<close>

lemma floor_200_5: "\<lfloor>401 / 2 :: rat\<rfloor> = 200"
  by (simp add: floor_eq_iff)

lemma js_number_small: "\<bar>i\<bar> < 2 ^ 53 \<Longrightarrow> js_number i = i"
  by (simp add: js_number_def)

lemma js_number_nonneg: "0 \<le> i \<Longrightarrow> 0 \<le> js_number i"
proof -
  assume i: "0 \<le> i"
  have "0 \<le> (if up then q + 1 else q) * (2::int) ^ e" if "0 \<le> q" for up q e
    using that by simp
  moreover have "0 \<le> \<bar>i\<bar> div 2 ^ e" for e
    by (simp add: pos_imp_zdiv_nonneg_iff)
  ultimately show ?thesis
    using i by (simp add: js_number_def Let_def sgn_if)
qed

lemma debit_small:
  assumes "\<bar>b\<bar> < 2 ^ 53" and "0 \<le> x" and "x \<le> b"
  shows "debit b x = b - x"
proof -
  have "\<bar>b - x\<bar> < 2 ^ 53" using assms by simp
  then show ?thesis
    using assms(1) by (simp add: debit_def js_number_small)
qed

lemma debit_nonneg:
  assumes "0 \<le> b" and "0 \<le> x" and "x \<le> js_number b"
  shows "0 \<le> debit b x"
proof (cases "\<bar>x\<bar> < 2 ^ 31")
  case True
  have "x \<le> b"
  proof (cases "\<bar>b\<bar> < 2 ^ 53")
    case True
    with assms(3) show ?thesis by (simp add: js_number_small)
  next
    case False
    with assms(1) have "(2::int) ^ 53 \<le> b" by simp
    with \<open>\<bar>x\<bar> < 2 ^ 31\<close> show ?thesis by simp
  qed
  with True show ?thesis by (simp add: debit_def)
next
  case False
  with assms(3) show ?thesis
    by (simp add: debit_def js_number_nonneg)
qed

text \<open>
  C4, as the handler implements it. Take a request that passes validation, from an
  existing user whose balance is below \<open>2 ^ 53\<close> in magnitude. When the amount
  exceeds the balance it is rejected with the state untouched, whatever the store does.
  Otherwise, when the store accepts both writes, it answers ok, appends exactly one
  \<^verbatim>\<open>pending\<close> row and debits the balance; the row and the debit both carry the floor
  of the requested amount, which is the requested amount itself whenever that is a whole
  number. What a rejected write leaves behind is not part of this statement.
\<close>

theorem post_withdrawals_floor_debit:
  assumes "get_user s uid = Some u" and "\<bar>balance_ksh u\<bar> < 2 ^ 53" and "0 < amount"
    and "6 \<le> length phone" and "2 \<le> length via"
  shows "(of_int (balance_ksh u) < amount \<longrightarrow>
            post_withdrawals flt uid amount phone via s
              = (Reject 400 ''Insufficient balance'', s))
       \<and> (amount \<le> of_int (balance_ksh u) \<longrightarrow>
            fst (post_withdrawals None uid amount phone via s) = Json ()
          \<and> map_option balance_ksh
                (get_user (snd (post_withdrawals None uid amount phone via s)) uid)
              = Some (balance_ksh u - \<lfloor>amount\<rfloor>)
          \<and> withdrawals (snd (post_withdrawals None uid amount phone via s))
              = withdrawals s @ [\<lparr>w_user = uid, w_amount = \<lfloor>amount\<rfloor>, w_phone = phone,
                                  w_method = via, w_status = ''pending''\<rparr>]
          \<and> (\<forall>n. amount = of_int n \<longrightarrow>
                map_option balance_ksh
                  (get_user (snd (post_withdrawals None uid amount phone via s)) uid)
                = Some (balance_ksh u - n)))"
proof -
  let ?b = "balance_ksh u"
  let ?row = "\<lparr>w_user = uid, w_amount = \<lfloor>amount\<rfloor>, w_phone = phone,
               w_method = via, w_status = ''pending''\<rparr>"
  have j: "js_number ?b = ?b"
    using assms(2) by (rule js_number_small)
  have g: "get_user (s\<lparr>withdrawals := w\<rparr>) uid = Some u" for w
    using assms(1) by (simp add: get_user_def)
  have rej: "post_withdrawals flt uid amount phone via s
               = (Reject 400 ''Insufficient balance'', s)"
    if "of_int ?b < amount"
    using that assms j by (simp add: post_withdrawals_def)
  have acc: "post_withdrawals None uid amount phone via s
               = (Json (), update_user uid (\<lambda>u. u\<lparr>balance_ksh := debit (balance_ksh u) \<lfloor>amount\<rfloor>\<rparr>)
                             (s\<lparr>withdrawals := withdrawals s @ [?row]\<rparr>))"
    if "amount \<le> of_int ?b"
    using that assms j by (simp add: post_withdrawals_def Let_def)
  have d: "debit ?b \<lfloor>amount\<rfloor> = ?b - \<lfloor>amount\<rfloor>" if le: "amount \<le> of_int ?b"
  proof (rule debit_small [OF assms(2)])
    show "0 \<le> \<lfloor>amount\<rfloor>" using assms(3) by simp
    have "\<lfloor>amount\<rfloor> \<le> \<lfloor>of_int ?b :: rat\<rfloor>" using le by (rule floor_mono)
    then show "\<lfloor>amount\<rfloor> \<le> ?b" by simp
  qed
  have bal: "map_option balance_ksh
               (get_user (snd (post_withdrawals None uid amount phone via s)) uid)
             = Some (?b - \<lfloor>amount\<rfloor>)"
    if "amount \<le> of_int ?b"
    using d [OF that] by (simp add: acc [OF that] get_user_update_user g)
  have rows: "withdrawals (snd (post_withdrawals None uid amount phone via s))
               = withdrawals s @ [?row]"
    if "amount \<le> of_int ?b"
    by (simp add: acc [OF that])
  have whole: "\<forall>n. amount = of_int n \<longrightarrow>
                map_option balance_ksh
                  (get_user (snd (post_withdrawals None uid amount phone via s)) uid)
                = Some (?b - n)"
    if "amount \<le> of_int ?b"
    using bal [OF that] by auto
  have ok: "fst (post_withdrawals None uid amount phone via s) = Json ()"
    if "amount \<le> of_int ?b"
    by (simp add: acc [OF that])
  from rej ok bal rows whole show ?thesis by blast
qed

text \<open>
  The two scenarios of the specification: balance 100 and a request for 150 is rejected
  with nothing changed; balance 500 and a request for 200 leaves 300 and one more row.
\<close>

theorem post_withdrawals_floor_debit_witness:
  "post_withdrawals None 2 150 ''0712345678'' ''mpesa'' demo_db
     = (Reject 400 ''Insufficient balance'', demo_db)
   \<and> fst (post_withdrawals None 1 200 ''0712345678'' ''mpesa'' demo_db) = Json ()
   \<and> map_option balance_ksh
        (get_user (snd (post_withdrawals None 1 200 ''0712345678'' ''mpesa'' demo_db)) 1)
       = Some 300
   \<and> length (withdrawals (snd (post_withdrawals None 1 200 ''0712345678'' ''mpesa'' demo_db)))
       = Suc (length (withdrawals demo_db))"
  using post_withdrawals_floor_debit
          [OF demo_user2, where amount = 150 and phone = "''0712345678''"
            and via = "''mpesa''" and flt = None]
        post_withdrawals_floor_debit
          [OF demo_user1, where amount = 200 and phone = "''0712345678''"
            and via = "''mpesa''"]
  by simp

text \<open>
  C4 as stated fails twice over. For a fractional amount: with balance 500 a request for
  200.5 is within the balance, and the debit is 200, not the requested 200.5. And the
  two writes are not one unit: when the store rejects the balance UPDATE of a request
  for 200, the request is answered 400, the pending row for 200 stays and the balance
  is still 500.
\<close>

theorem post_withdrawals_fraction_counterexample:
  "(401 / 2 :: rat) \<le> of_int 500
   \<and> map_option balance_ksh (get_user demo_db 1) = Some 500
   \<and> map_option balance_ksh
        (get_user (snd (post_withdrawals None 1 (401 / 2) ''0712345678'' ''mpesa'' demo_db)) 1)
       = Some 300
   \<and> (of_int 500 - 401 / 2 :: rat) \<noteq> of_int 300
   \<and> fst (post_withdrawals (Some 2) 1 200 ''0712345678'' ''mpesa'' demo_db)
       = Reject 400 ''SQLITE_ERROR''
   \<and> withdrawals (snd (post_withdrawals (Some 2) 1 200 ''0712345678'' ''mpesa'' demo_db))
       = withdrawals demo_db @
         [\<lparr>w_user = 1, w_amount = 200, w_phone = ''0712345678'', w_method = ''mpesa'',
           w_status = ''pending''\<rparr>]
   \<and> map_option balance_ksh
        (get_user (snd (post_withdrawals (Some 2) 1 200 ''0712345678'' ''mpesa'' demo_db)) 1)
       = Some 500"
  by (simp add: demo_db_def get_user_def post_withdrawals_def update_user_def floor_200_5
        js_number_def debit_def)

section \<open>Account purge: the sweep leaves nothing owned by a purged user\<close>

lemma fold_purge_user:
  "users (fold purge_user ids s) = filter (\<lambda>u. user_id u \<notin> set ids) (users s)"
  "tasks (fold purge_user ids s) = tasks s"
  "daily_tasks (fold purge_user ids s) = filter (\<lambda>d. d_user d \<notin> set ids) (daily_tasks s)"
  "task_completions (fold purge_user ids s)
     = filter (\<lambda>c. c_user c \<notin> set ids) (task_completions s)"
  "withdrawals (fold purge_user ids s) = filter (\<lambda>w. w_user w \<notin> set ids) (withdrawals s)"
  "referral_rewards (fold purge_user ids s)
     = filter (\<lambda>r. rr_referrer r \<notin> set ids \<and> rr_referred r \<notin> set ids) (referral_rewards s)"
  by (induction ids arbitrary: s; simp add: purge_user_def; rule filter_cong; auto)+

lemma purge_tables:
  "users (purgeDeletedAccounts now s)
     = filter (\<lambda>u. user_id u \<notin> set (doomed now s)) (users s)"
  "tasks (purgeDeletedAccounts now s) = tasks s"
  "daily_tasks (purgeDeletedAccounts now s)
     = filter (\<lambda>d. d_user d \<notin> set (doomed now s)) (daily_tasks s)"
  "task_completions (purgeDeletedAccounts now s)
     = filter (\<lambda>c. c_user c \<notin> set (doomed now s)) (task_completions s)"
  "withdrawals (purgeDeletedAccounts now s)
     = filter (\<lambda>w. w_user w \<notin> set (doomed now s)) (withdrawals s)"
  "referral_rewards (purgeDeletedAccounts now s)
     = filter (\<lambda>r. rr_referrer r \<notin> set (doomed now s) \<and> rr_referred r \<notin> set (doomed now s))
              (referral_rewards s)"
  by (simp_all add: purgeDeletedAccounts_def fold_purge_user)

lemma doomed_member:
  assumes "u \<in> set (users s)" and "delete_effective_at u = Some e" and "e \<le> now"
  shows "user_id u \<in> set (doomed now s)"
proof -
  have "sqlite_datetime e \<le> sqlite_datetime now"
    using assms(3) by (simp add: sqlite_datetime_def div_le_mono)
  then show ?thesis
    using assms(1,2) by (force simp: doomed_def)
qed

text \<open>
  C9. For a user whose \<^verbatim>\<open>delete_effective_at\<close> has passed, one sweep leaves no user row
  with that id and no row of \<^verbatim>\<open>daily_tasks\<close>, \<^verbatim>\<open>task_completions\<close>,
  \<^verbatim>\<open>withdrawals\<close> or \<^verbatim>\<open>referral_rewards\<close> (as referrer or as referred user) that
  names the id.
\<close>

theorem purge_removes_owned_rows:
  assumes "u \<in> set (users s)" and "delete_effective_at u = Some e" and "e \<le> now"
  shows "get_user (purgeDeletedAccounts now s) (user_id u) = None
       \<and> (\<forall>d \<in> set (daily_tasks (purgeDeletedAccounts now s)). d_user d \<noteq> user_id u)
       \<and> (\<forall>c \<in> set (task_completions (purgeDeletedAccounts now s)). c_user c \<noteq> user_id u)
       \<and> (\<forall>w \<in> set (withdrawals (purgeDeletedAccounts now s)). w_user w \<noteq> user_id u)
       \<and> (\<forall>r \<in> set (referral_rewards (purgeDeletedAccounts now s)).
             rr_referrer r \<noteq> user_id u \<and> rr_referred r \<noteq> user_id u)"
proof -
  have m: "user_id u \<in> set (doomed now s)"
    using assms by (rule doomed_member)
  have "get_user (purgeDeletedAccounts now s) (user_id u) = None"
    using m by (auto simp: get_user_def purge_tables find_None_iff)
  moreover have "\<forall>d \<in> set (daily_tasks (purgeDeletedAccounts now s)). d_user d \<noteq> user_id u"
    using m by (auto simp: purge_tables)
  moreover have "\<forall>c \<in> set (task_completions (purgeDeletedAccounts now s)). c_user c \<noteq> user_id u"
    using m by (auto simp: purge_tables)
  moreover have "\<forall>w \<in> set (withdrawals (purgeDeletedAccounts now s)). w_user w \<noteq> user_id u"
    using m by (auto simp: purge_tables)
  moreover have "\<forall>r \<in> set (referral_rewards (purgeDeletedAccounts now s)).
             rr_referrer r \<noteq> user_id u \<and> rr_referred r \<noteq> user_id u"
    using m by (auto simp: purge_tables)
  ultimately show ?thesis by blast
qed

lemma demo_doomed: "doomed 1768769999000 demo_db = [3]"
  by (simp add: doomed_def demo_db_def sqlite_datetime_def)

lemma demo_purged:
  "purgeDeletedAccounts 1768769999000 demo_db =
     demo_db\<lparr>users := take 2 (users demo_db), daily_tasks := take 3 (daily_tasks demo_db),
             task_completions := [], withdrawals := [], referral_rewards := []\<rparr>"
  by (simp add: purgeDeletedAccounts_def demo_doomed purge_user_def) (simp add: demo_db_def)

text \<open>User 3 of the example is due on 2026-01-18; the sweep removes all four of its rows.\<close>

theorem purge_removes_owned_rows_witness:
  "\<lparr>user_id = 3, referred_by = Some 1, balance_ksh = 40, bonus_ksh = 0,
     delete_effective_at = Some 1768000000000\<rparr> \<in> set (users demo_db)
   \<and> (1768000000000 :: nat) \<le> 1768769999000
   \<and> get_user (purgeDeletedAccounts 1768769999000 demo_db) 3 = None
   \<and> map d_user (daily_tasks (purgeDeletedAccounts 1768769999000 demo_db)) = [2, 2, 2]
   \<and> task_completions (purgeDeletedAccounts 1768769999000 demo_db) = []
   \<and> withdrawals (purgeDeletedAccounts 1768769999000 demo_db) = []
   \<and> referral_rewards (purgeDeletedAccounts 1768769999000 demo_db) = []"
proof -
  have u: "\<lparr>user_id = 3, referred_by = Some 1, balance_ksh = 40, bonus_ksh = 0,
     delete_effective_at = Some 1768000000000\<rparr> \<in> set (users demo_db)"
    by (simp add: demo_db_def)
  have t: "(1768000000000 :: nat) \<le> 1768769999000" by simp
  show ?thesis
    using purge_removes_owned_rows [OF u _ t] u
    by (simp add: demo_purged) (simp add: demo_db_def)
qed


section \<open>What each handler leaves alone\<close>

lemma find_SomeD: "find P xs = Some x \<Longrightarrow> x \<in> set xs \<and> P x"
  by (auto simp: find_Some_iff)

lemma fold_insert_or_ignore_fields [simp]:
  "users (fold (\<lambda>t. insert_or_ignore_daily (f t)) ts s) = users s"
  "tasks (fold (\<lambda>t. insert_or_ignore_daily (f t)) ts s) = tasks s"
  "task_completions (fold (\<lambda>t. insert_or_ignore_daily (f t)) ts s) = task_completions s"
  "withdrawals (fold (\<lambda>t. insert_or_ignore_daily (f t)) ts s) = withdrawals s"
  "referral_rewards (fold (\<lambda>t. insert_or_ignore_daily (f t)) ts s) = referral_rewards s"
  by (induction ts arbitrary: s; simp add: insert_or_ignore_daily_def)+

lemma ensureDailyTasks_fields [simp]:
  "users (snd (ensureDailyTasks rnd now uid s)) = users s"
  "tasks (snd (ensureDailyTasks rnd now uid s)) = tasks s"
  "task_completions (snd (ensureDailyTasks rnd now uid s)) = task_completions s"
  "withdrawals (snd (ensureDailyTasks rnd now uid s)) = withdrawals s"
  "referral_rewards (snd (ensureDailyTasks rnd now uid s)) = referral_rewards s"
  by (simp_all add: ensureDailyTasks_def Let_def)

lemma get_tasks_fields [simp]:
  "users (snd (get_tasks rnd now uid s)) = users (purgeDeletedAccounts now s)"
  "tasks (snd (get_tasks rnd now uid s)) = tasks s"
  "task_completions (snd (get_tasks rnd now uid s)) = task_completions (purgeDeletedAccounts now s)"
  by (simp_all add: get_tasks_def split_beta purge_tables)

section \<open>Balances never go negative\<close>

lemma ledger_ok_purge: "ledger_ok s \<Longrightarrow> ledger_ok (purgeDeletedAccounts now s)"
  by (auto simp: ledger_ok_def purge_tables list_all_iff distinct_map_filter)

lemma ledger_ok_update_user:
  assumes "ledger_ok s"
    and "\<And>u. user_id (f u) = user_id u"
    and "\<And>u. get_user s i = Some u \<Longrightarrow> 0 \<le> balance_ksh (f u) \<and> 0 \<le> bonus_ksh (f u)"
  shows "ledger_ok (update_user i f s)"
proof -
  have ids: "map user_id (map (\<lambda>u. if user_id u = i then f u else u) (users s)) = map user_id (users s)"
    using assms(2) by (induction "users s") auto
  have "get_user s i = Some u" if "u \<in> set (users s)" "user_id u = i" for u
  proof -
    have "find (\<lambda>u. user_id u = i) (users s) \<noteq> None"
      using that by (auto simp: find_None_iff)
    then obtain v where v: "find (\<lambda>u. user_id u = i) (users s) = Some v"
      by blast
    then have "v \<in> set (users s)" "user_id v = i" by (auto dest: find_SomeD)
    with that assms(1) have "v = u"
      by (auto simp: ledger_ok_def distinct_map inj_on_def)
    with v show ?thesis by (simp add: get_user_def)
  qed
  with assms(1,3) show ?thesis
    unfolding ledger_ok_def update_user_def
    by (auto simp: ids list_all_iff simp del: map_map)
qed


lemma ledger_ok_fields [simp]:
  "ledger_ok (s\<lparr>withdrawals := w\<rparr>) = ledger_ok s"
  "ledger_ok (s\<lparr>task_completions := c\<rparr>) = ledger_ok s"
  "ledger_ok (s\<lparr>referral_rewards := r\<rparr>) = ledger_ok s"
  "ledger_ok (s\<lparr>daily_tasks := d\<rparr>) = ledger_ok s"
  by (simp_all add: ledger_ok_def)

lemma get_user_fields [simp]:
  "get_user (s\<lparr>withdrawals := w\<rparr>) i = get_user s i"
  "get_user (s\<lparr>task_completions := c\<rparr>) i = get_user s i"
  "get_user (s\<lparr>referral_rewards := r\<rparr>) i = get_user s i"
  "get_user (s\<lparr>daily_tasks := d\<rparr>) i = get_user s i"
  by (simp_all add: get_user_def)

lemma ledger_ok_withdrawals:
  assumes "ledger_ok s"
  shows "ledger_ok (snd (post_withdrawals flt uid amount phone m s))"
proof -
  have nn: "0 \<le> balance_ksh u \<and> 0 \<le> bonus_ksh u" if "get_user s uid = Some u" for u
    using that assms by (auto simp: get_user_def ledger_ok_def list_all_iff dest: find_SomeD)
  have "0 \<le> debit (balance_ksh u) \<lfloor>amount\<rfloor>"
    if u: "get_user s uid = Some u" and pos: "0 < amount"
      and le: "\<not> of_int (js_number (balance_ksh u)) < amount" for u
  proof (rule debit_nonneg)
    show "0 \<le> balance_ksh u" using nn [OF u] by simp
    show "0 \<le> \<lfloor>amount\<rfloor>" using pos by simp
    from le have "amount \<le> of_int (js_number (balance_ksh u))" by simp
    then have "\<lfloor>amount\<rfloor> \<le> \<lfloor>of_int (js_number (balance_ksh u)) :: rat\<rfloor>"
      by (rule floor_mono)
    then show "\<lfloor>amount\<rfloor> \<le> js_number (balance_ksh u)" by simp
  qed
  with nn show ?thesis
    using assms
    by (auto simp: post_withdrawals_def Let_def split: option.splits
             intro!: ledger_ok_update_user)
qed

lemma ledger_ok_redeem:
  assumes "ledger_ok s"
  shows "ledger_ok (snd (post_referrals_redeem flt uid s))"
proof -
  have "0 \<le> balance_ksh u" if "get_user s uid = Some u" for u
    using that assms by (auto simp: get_user_def ledger_ok_def list_all_iff dest: find_SomeD)
  then show ?thesis
    using assms
    by (auto simp: post_referrals_redeem_def Let_def split: option.splits
             intro!: ledger_ok_update_user)
qed

lemma ledger_ok_get_user:
  "ledger_ok s \<Longrightarrow> get_user s i = Some u \<Longrightarrow> 0 \<le> balance_ksh u \<and> 0 \<le> bonus_ksh u"
  by (auto simp: get_user_def ledger_ok_def list_all_iff dest: find_SomeD)

lemma ledger_ok_referral_bonus:
  assumes "ledger_ok s"
  shows "ledger_ok (snd (referral_bonus flt uid s))"
  using assms
  by (auto simp: referral_bonus_def Let_def split: option.splits
           intro!: ledger_ok_update_user dest: ledger_ok_get_user)

lemma referral_bonus_fields [simp]:
  "tasks (snd (referral_bonus flt uid s)) = tasks s"
  "daily_tasks (snd (referral_bonus flt uid s)) = daily_tasks s"
  "task_completions (snd (referral_bonus flt uid s)) = task_completions s"
  "withdrawals (snd (referral_bonus flt uid s)) = withdrawals s"
  by (simp_all add: referral_bonus_def Let_def split: option.splits)

lemma insert_completion_fields:
  assumes "insert_completion flt now uid taskId reward answer s = Some s1"
  shows "users s1 = users s" "tasks s1 = tasks s" "daily_tasks s1 = daily_tasks s"
    "withdrawals s1 = withdrawals s" "referral_rewards s1 = referral_rewards s"
    "task_completions s1 = task_completions s @
        [\<lparr>c_user = uid, c_task = taskId, c_reward = reward, c_answer = answer,
          c_created_at = sqlite_datetime now\<rparr>]"
  using assms by (auto simp: insert_completion_def split: if_splits)

lemma ledger_ok_insert_completion:
  "insert_completion flt now uid taskId reward answer s = Some s1 \<Longrightarrow> ledger_ok s1 = ledger_ok s"
  by (auto simp: insert_completion_def split: if_splits)

text \<open>
  The three ways a completion request can end: nothing written beyond the sweep; the
  completion row written and the request dead at the balance update; or row and credit
  both written, followed by the referral block.
\<close>

lemma post_tasks_complete_cases:
  obtains
    (untouched) "snd (post_tasks_complete flt now uid taskId answer s) = purgeDeletedAccounts now s"
      "\<And>b. fst (post_tasks_complete flt now uid taskId answer s) \<noteq> Json b"
  | (recorded) t s1 where
      "find (\<lambda>t. task_id t = taskId \<and> active t) (tasks (purgeDeletedAccounts now s)) = Some t"
      "find (\<lambda>d. d_user d = uid \<and> d_day d = dayUTC now \<and> d_task d = taskId)
            (daily_tasks (purgeDeletedAccounts now s)) \<noteq> None"
      "\<not> 5 \<le> length (completions_today (purgeDeletedAccounts now s) uid now)"
      "insert_completion flt now uid taskId (reward_ksh t) answer (purgeDeletedAccounts now s)
         = Some s1"
      "flt = Some 2"
      "post_tasks_complete flt now uid taskId answer s = (Thrown, s1)"
  | (credited) t s1 where
      "find (\<lambda>t. task_id t = taskId \<and> active t) (tasks (purgeDeletedAccounts now s)) = Some t"
      "find (\<lambda>d. d_user d = uid \<and> d_day d = dayUTC now \<and> d_task d = taskId)
            (daily_tasks (purgeDeletedAccounts now s)) \<noteq> None"
      "\<not> 5 \<le> length (completions_today (purgeDeletedAccounts now s) uid now)"
      "insert_completion flt now uid taskId (reward_ksh t) answer (purgeDeletedAccounts now s)
         = Some s1"
      "flt \<noteq> Some 2"
      "snd (post_tasks_complete flt now uid taskId answer s)
         = snd (referral_bonus flt uid
                  (update_user uid (\<lambda>u. u\<lparr>balance_ksh := balance_ksh u + reward_ksh t\<rparr>) s1))"
proof -
  let ?p = "purgeDeletedAccounts now s"
  show thesis
  proof (cases "find (\<lambda>t. task_id t = taskId \<and> active t) (tasks ?p)")
    case None
    then show thesis by (intro untouched) (simp_all add: post_tasks_complete_def)
  next
    case t: (Some t)
    show thesis
    proof (cases "find (\<lambda>d. d_user d = uid \<and> d_day d = dayUTC now \<and> d_task d = taskId)
                       (daily_tasks ?p)")
      case None
      then show thesis using t by (intro untouched) (simp_all add: post_tasks_complete_def)
    next
      case a: (Some a)
      show thesis
      proof (cases "5 \<le> length (completions_today ?p uid now)")
        case True
        then show thesis using t a by (intro untouched) (simp_all add: post_tasks_complete_def)
      next
        case cap: False
        show thesis
        proof (cases "insert_completion flt now uid taskId (reward_ksh t) answer ?p")
          case None
          then show thesis
            using t a cap by (intro untouched) (simp_all add: post_tasks_complete_def)
        next
          case i: (Some s1)
          show thesis
          proof (cases "flt = Some 2")
            case True
            have "post_tasks_complete flt now uid taskId answer s = (Thrown, s1)"
              using t a cap i True by (simp add: post_tasks_complete_def)
            then show thesis
              using t a cap i True by (intro recorded [of t s1]) simp_all
          next
            case False
            have "snd (post_tasks_complete flt now uid taskId answer s)
                  = snd (referral_bonus flt uid
                      (update_user uid (\<lambda>u. u\<lparr>balance_ksh := balance_ksh u + reward_ksh t\<rparr>) s1))"
              using t a cap i False
              by (simp add: post_tasks_complete_def Let_def case_prod_unfold split: option.splits)
            then show thesis
              using t a cap i False by (intro credited [of t s1]) simp_all
          qed
        qed
      qed
    qed
  qed
qed

lemma ledger_ok_complete:
  assumes "ledger_ok s" and "rewards_ok s"
  shows "ledger_ok (snd (post_tasks_complete flt now uid taskId answer s))"
proof (cases rule: post_tasks_complete_cases [where flt = flt and now = now and uid = uid and taskId = taskId and answer = answer and s = s])
  case untouched
  then show ?thesis using assms(1) by (simp add: ledger_ok_purge)
next
  case (recorded t s1)
  then show ?thesis
    using assms(1) by (simp add: ledger_ok_insert_completion ledger_ok_purge)
next
  case (credited t s1)
  have "0 \<le> reward_ksh t"
    using credited(1) assms(2)
    by (auto simp: rewards_ok_def purge_tables list_all_iff dest: find_SomeD)
  moreover have "ledger_ok s1"
    using credited(4) assms(1) by (simp add: ledger_ok_insert_completion ledger_ok_purge)
  ultimately have
    "ledger_ok (update_user uid (\<lambda>u. u\<lparr>balance_ksh := balance_ksh u + reward_ksh t\<rparr>) s1)"
    by (auto intro!: ledger_ok_update_user dest: ledger_ok_get_user)
  then show ?thesis
    by (simp add: credited(6) ledger_ok_referral_bonus)
qed

lemma rewards_ok_serve_one: "rewards_ok (serve_one r s) = rewards_ok s"
proof -
  have "tasks (snd (post_tasks_complete flt now uid taskId answer s)) = tasks s"
    for flt now uid taskId answer
    by (cases rule: post_tasks_complete_cases [where flt = flt and now = now and uid = uid
                  and taskId = taskId and answer = answer and s = s])
       (simp_all add: purge_tables insert_completion_fields)
  moreover have "tasks (snd (post_withdrawals flt uid amount phone m s)) = tasks s"
    for flt uid amount phone m
    by (auto simp: post_withdrawals_def Let_def split: option.splits)
  moreover have "tasks (snd (post_referrals_redeem flt uid s)) = tasks s" for flt uid
    by (auto simp: post_referrals_redeem_def Let_def split: option.splits)
  ultimately show ?thesis
    by (cases r) (simp_all add: rewards_ok_def purge_tables)
qed

lemma ledger_ok_serve_one:
  "ledger_ok s \<Longrightarrow> rewards_ok s \<Longrightarrow> ledger_ok (serve_one r s)"
  by (cases r)
     (simp_all add: ledger_ok_complete ledger_ok_withdrawals ledger_ok_redeem ledger_ok_purge
        ledger_ok_def [of "snd (get_tasks _ _ _ _)"] ledger_ok_def [of "purgeDeletedAccounts _ _", symmetric])

text \<open>
  C8. Balances and bonuses are SQLite INTEGERs that every write changes by an integer
  (a reward, 100, 1000, a floored amount). Starting from a state with unique user ids,
  no negative balance or bonus and no negative reward in the catalog, no sequence of
  completions, withdrawals, redemptions, task listings and sweeps, with any clock, any
  draw and any store failure, reaches a negative balance or bonus.
\<close>

theorem balances_never_negative:
  assumes "ledger_ok s" and "rewards_ok s"
  shows "ledger_ok (serve reqs s)"
  using assms unfolding serve_def
  by (induction reqs arbitrary: s) (simp_all add: ledger_ok_serve_one rewards_ok_serve_one)


text \<open>The example state satisfies both hypotheses; a completion, a redemption and a
  withdrawal on it keep the ledger well-formed.\<close>

theorem balances_never_negative_witness:
  "ledger_ok demo_db \<and> rewards_ok demo_db
   \<and> ledger_ok (serve [Complete None 1768769999000 2 1 ''hello'', Redeem None 1,
                        Withdraw None 1 200 ''0712345678'' ''mpesa''] demo_db)"
proof -
  have l: "ledger_ok demo_db" by (simp add: ledger_ok_def demo_db_def)
  have r: "rewards_ok demo_db" by (simp add: rewards_ok_def demo_db_def)
  show ?thesis
    using l r balances_never_negative [OF l r] by simp
qed


section \<open>At most five completions per user and day\<close>

lemma daily_cap_iff:
  "daily_cap s \<longleftrightarrow> (\<forall>uid day. length (same_day_completions s uid day) \<le> 5)"
proof
  assume c: "daily_cap s"
  show "\<forall>uid day. length (same_day_completions s uid day) \<le> 5"
  proof (intro allI)
    fix uid day
    show "length (same_day_completions s uid day) \<le> 5"
    proof (cases "same_day_completions s uid day")
      case Nil
      then show ?thesis by simp
    next
      case (Cons c' cs)
      then have "c' \<in> set (same_day_completions s uid day)" by simp
      then have "c' \<in> set (task_completions s)" "c_user c' = uid"
        "sqlite_date (c_created_at c') = day"
        by (auto simp: same_day_completions_def)
      with c show ?thesis by (auto simp: daily_cap_def list_all_iff)
    qed
  qed
next
  assume "\<forall>uid day. length (same_day_completions s uid day) \<le> 5"
  then show "daily_cap s" by (simp add: daily_cap_def list_all_iff)
qed

lemma daily_cap_cong:
  "task_completions s' = task_completions s \<Longrightarrow> daily_cap s' = daily_cap s"
  by (simp add: daily_cap_iff same_day_completions_def)

lemma daily_cap_filter:
  assumes "daily_cap s" and "task_completions s' = filter P (task_completions s)"
  shows "daily_cap s'"
proof -
  have "length (same_day_completions s' uid day) \<le> length (same_day_completions s uid day)"
    for uid day
  proof -
    have "same_day_completions s' uid day = filter P (same_day_completions s uid day)"
      by (auto simp: same_day_completions_def assms(2) intro: filter_cong)
    then show ?thesis by simp
  qed
  with assms(1) show ?thesis
    unfolding daily_cap_iff by (meson le_trans)
qed

lemma daily_cap_purge: "daily_cap s \<Longrightarrow> daily_cap (purgeDeletedAccounts now s)"
  by (erule daily_cap_filter) (simp add: purge_tables)

lemma daily_cap_insert:
  assumes "daily_cap s"
    and "\<not> 5 \<le> length (completions_today s uid now)"
    and "insert_completion flt now uid taskId reward answer s = Some s1"
  shows "daily_cap s1"
proof -
  let ?today = "sqlite_date (sqlite_datetime now)"
  have today: "length (same_day_completions s uid ?today) < 5"
    using assms(2) by (simp add: completions_today_def same_day_completions_def)
  have "length (same_day_completions s1 u d) \<le> 5" for u d
  proof (cases "u = uid \<and> d = ?today")
    case True
    then have "length (same_day_completions s1 u d) = Suc (length (same_day_completions s uid ?today))"
      by (simp add: same_day_completions_def insert_completion_fields [OF assms(3)])
    with today show ?thesis by simp
  next
    case False
    then have "same_day_completions s1 u d = same_day_completions s u d"
      by (auto simp: same_day_completions_def insert_completion_fields [OF assms(3)])
    with assms(1) show ?thesis by (simp add: daily_cap_iff)
  qed
  then show ?thesis by (simp add: daily_cap_iff)
qed

lemma daily_cap_complete:
  assumes "daily_cap s"
  shows "daily_cap (snd (post_tasks_complete flt now uid taskId answer s))"
proof (cases rule: post_tasks_complete_cases [where flt = flt and now = now and uid = uid
                    and taskId = taskId and answer = answer and s = s])
  case untouched
  then show ?thesis using assms by (simp add: daily_cap_purge)
next
  case (recorded t s1)
  then show ?thesis
    using daily_cap_insert [OF daily_cap_purge [OF assms]] by simp
next
  case (credited t s1)
  have "daily_cap s1"
    using daily_cap_insert [OF daily_cap_purge [OF assms] credited(3,4)] .
  moreover have "daily_cap (snd (referral_bonus flt uid
            (update_user uid (\<lambda>u. u\<lparr>balance_ksh := balance_ksh u + reward_ksh t\<rparr>) s1)))
          = daily_cap s1"
    by (rule daily_cap_cong) simp
  ultimately show ?thesis
    by (simp add: credited(6))
qed

lemma daily_cap_serve_one: "daily_cap s \<Longrightarrow> daily_cap (serve_one r s)"
proof (cases r)
  case (Complete flt now uid taskId answer)
  then show "daily_cap s \<Longrightarrow> ?thesis" by (simp add: daily_cap_complete)
next
  case (Withdraw flt uid amount phone m)
  have "task_completions (snd (post_withdrawals flt uid amount phone m s)) = task_completions s"
    by (auto simp: post_withdrawals_def Let_def split: option.splits)
  from daily_cap_cong [OF this] show "daily_cap s \<Longrightarrow> ?thesis" using Withdraw by simp
next
  case (Redeem flt uid)
  have "task_completions (snd (post_referrals_redeem flt uid s)) = task_completions s"
    by (auto simp: post_referrals_redeem_def Let_def split: option.splits)
  from daily_cap_cong [OF this] show "daily_cap s \<Longrightarrow> ?thesis" using Redeem by simp
next
  case (GetTasks rnd now uid)
  have "daily_cap (snd (get_tasks rnd now uid s)) = daily_cap (purgeDeletedAccounts now s)"
    by (rule daily_cap_cong) simp
  with GetTasks show "daily_cap s \<Longrightarrow> ?thesis"
    by (simp add: daily_cap_purge)
next
  case (Sweep now)
  then show "daily_cap s \<Longrightarrow> ?thesis" by (simp add: daily_cap_purge)
qed

lemma daily_cap_serve: "daily_cap s \<Longrightarrow> daily_cap (serve reqs s)"
  unfolding serve_def by (induction reqs arbitrary: s) (simp_all add: daily_cap_serve_one)


text \<open>
  C10. When the user already has five completion rows dated today, the request writes
  nothing beyond the sweep and does not answer ok; for an active task assigned today the
  answer is the daily-limit rejection. Hence, from a state in which no user has more
  than five rows on one day, no sequence of requests reaches a state in which some user
  has more than five on one day. The count is over completion rows alone: which tasks
  the rows name plays no part.
\<close>

theorem daily_completion_cap:
  "(5 \<le> length (completions_today (purgeDeletedAccounts now s) uid now) \<longrightarrow>
      (\<forall>b. fst (post_tasks_complete flt now uid taskId answer s) \<noteq> Json b)
    \<and> snd (post_tasks_complete flt now uid taskId answer s) = purgeDeletedAccounts now s
    \<and> (find (\<lambda>t. task_id t = taskId \<and> active t) (tasks s) \<noteq> None
       \<and> find (\<lambda>d. d_user d = uid \<and> d_day d = dayUTC now \<and> d_task d = taskId)
               (daily_tasks (purgeDeletedAccounts now s)) \<noteq> None
       \<longrightarrow> fst (post_tasks_complete flt now uid taskId answer s)
             = Reject 400 ''Daily limit reached (5 tasks/day)''))
   \<and> (daily_cap s \<longrightarrow>
        (\<forall>u day. length (same_day_completions (serve reqs s) u day) \<le> 5))"
proof -
  have "daily_cap s \<longrightarrow> (\<forall>u day. length (same_day_completions (serve reqs s) u day) \<le> 5)"
    using daily_cap_serve [of s reqs] by (simp add: daily_cap_iff)
  moreover have "(\<forall>b. fst (post_tasks_complete flt now uid taskId answer s) \<noteq> Json b)
    \<and> snd (post_tasks_complete flt now uid taskId answer s) = purgeDeletedAccounts now s
    \<and> (find (\<lambda>t. task_id t = taskId \<and> active t) (tasks s) \<noteq> None
       \<and> find (\<lambda>d. d_user d = uid \<and> d_day d = dayUTC now \<and> d_task d = taskId)
               (daily_tasks (purgeDeletedAccounts now s)) \<noteq> None
       \<longrightarrow> fst (post_tasks_complete flt now uid taskId answer s)
             = Reject 400 ''Daily limit reached (5 tasks/day)'')"
    if "5 \<le> length (completions_today (purgeDeletedAccounts now s) uid now)"
    using that
    by (auto simp: post_tasks_complete_def Let_def purge_tables split: option.splits)
  ultimately show ?thesis by blast
qed


section \<open>The example states, evaluated\<close>

lemmas calendar_defs =
  date_of_day_def year_from.simps month_from.simps days_in_year_def days_in_month_def
  leap_year_def iso_date_def pad2_def pad4_def digit_def

lemma dayUTC_demo: "dayUTC 1768769999000 = ''2026-01-18''"
  by (simp add: dayUTC_def calendar_defs)

lemma sqlite_date_demo:
  "sqlite_date (sqlite_datetime 1768769999000) = ''2026-01-18''"
  "sqlite_date 1768730000 = ''2026-01-18''"
  "sqlite_date 1768730001 = ''2026-01-18''"
  "sqlite_date 1768730002 = ''2026-01-18''"
  "sqlite_date 1768730003 = ''2026-01-18''"
  "sqlite_date 1768730004 = ''2026-01-18''"
  "sqlite_date 1767990000 = ''2026-01-09''"
  by (simp_all add: sqlite_date_def sqlite_datetime_def calendar_defs)

lemma capped_purged:
  "purgeDeletedAccounts 1768769999000 capped_db =
     capped_db\<lparr>users := take 2 (users demo_db), daily_tasks := take 3 (daily_tasks demo_db),
               withdrawals := [], referral_rewards := []\<rparr>"
proof -
  have "doomed 1768769999000 capped_db = [3]"
    by (simp add: doomed_def capped_db_def demo_db_def sqlite_datetime_def)
  then show ?thesis
    by (simp add: purgeDeletedAccounts_def purge_user_def)
       (simp add: capped_db_def demo_db_def upt_rec)
qed

lemma capped_today:
  "length (completions_today (purgeDeletedAccounts 1768769999000 capped_db) 2 1768769999000) = 5"
  unfolding capped_purged
  by (simp add: completions_today_def capped_db_def upt_rec sqlite_date_demo)


text \<open>
  User 2 with five rows on 2026-01-18: a sixth completion is turned down and the count
  stays at five whatever is tried next.
\<close>

theorem daily_completion_cap_witness:
  "5 \<le> length (completions_today (purgeDeletedAccounts 1768769999000 capped_db) 2 1768769999000)
   \<and> daily_cap capped_db
   \<and> post_tasks_complete None 1768769999000 2 1 ''hello'' capped_db
       = (Reject 400 ''Daily limit reached (5 tasks/day)'',
          purgeDeletedAccounts 1768769999000 capped_db)
   \<and> length (same_day_completions
               (serve [Complete None 1768769999000 2 1 ''hello'',
                       Complete None 1768770001000 2 1 ''hello''] capped_db)
               2 ''2026-01-18'') \<le> 5"
proof -
  have five: "5 \<le> length (completions_today (purgeDeletedAccounts 1768769999000 capped_db) 2
                            1768769999000)"
    by (simp add: capped_today)
  have t: "find (\<lambda>t. task_id t = 1 \<and> active t) (tasks capped_db) \<noteq> None"
    by (simp add: capped_db_def demo_db_def)
  have a: "find (\<lambda>d. d_user d = 2 \<and> d_day d = dayUTC 1768769999000 \<and> d_task d = 1)
             (daily_tasks (purgeDeletedAccounts 1768769999000 capped_db)) \<noteq> None"
    unfolding capped_purged by (simp add: capped_db_def demo_db_def dayUTC_demo)
  have c: "daily_cap capped_db"
    by (simp add: daily_cap_def same_day_completions_def capped_db_def upt_rec sqlite_date_demo)
  show ?thesis
    using five t a c
      daily_completion_cap [of 1768769999000 capped_db 2 None 1 "''hello''"
        "[Complete None 1768769999000 2 1 ''hello'', Complete None 1768770001000 2 1 ''hello'']"]
    by (simp add: prod_eq_iff)
qed


lemma demo_clock:
  "dayUTC 1768770001000 = ''2026-01-18''"
  "sqlite_date (sqlite_datetime 1768770001000) = ''2026-01-18''"
  "sqlite_date 1768769999 = ''2026-01-18''"
  "sqlite_date 1768770001 = ''2026-01-18''"
  by (simp_all add: dayUTC_def sqlite_date_def sqlite_datetime_def calendar_defs)

lemmas run_defs =
  post_tasks_complete_def Let_def insert_completion_def referral_bonus_def update_user_def
  get_user_def completions_today_def dayUTC_demo sqlite_date_demo demo_clock

lemma demo_first_completion:
  "post_tasks_complete None 1768769999000 2 1 ''hello'' demo_db = (Json 110, after_first)"
  unfolding post_tasks_complete_def demo_purged
  by (simp add: run_defs sqlite_datetime_def demo_db_def after_first_def)

lemma after_first_settled: "purgeDeletedAccounts now after_first = after_first"
  by (simp add: purgeDeletedAccounts_def doomed_def after_first_def)

lemma demo_second_completion:
  "post_tasks_complete None 1768770001000 2 3 ''a cat'' after_first
     = (Json 125,
        after_first\<lparr>users :=
            [\<lparr>user_id = 1, referred_by = None, balance_ksh = 500, bonus_ksh = 1100,
              delete_effective_at = None\<rparr>,
             \<lparr>user_id = 2, referred_by = Some 1, balance_ksh = 125, bonus_ksh = 0,
              delete_effective_at = None\<rparr>],
          task_completions :=
            [\<lparr>c_user = 2, c_task = 1, c_reward = 10, c_answer = ''hello'',
              c_created_at = 1768769999\<rparr>,
             \<lparr>c_user = 2, c_task = 3, c_reward = 15, c_answer = ''a cat'',
              c_created_at = 1768770001\<rparr>]\<rparr>)"
  unfolding post_tasks_complete_def after_first_settled
  by (simp add: run_defs sqlite_datetime_def demo_db_def after_first_def)

section \<open>Completing the same assignment again\<close>

text \<open>
  C1 on the handler. User 2 completes task 1, assigned for 2026-01-18, at 20:59:59 UTC
  and posts the same completion again two seconds later. Nothing in the handler looks for
  an earlier completion of the task, and the UNIQUE key of \<^verbatim>\<open>task_completions\<close>
  includes \<^verbatim>\<open>created_at\<close>, so the second request is accepted: a second row for
  the same task and the reward credited again (100, 110, 120).
\<close>

theorem repeat_completion_credits_twice:
  "post_tasks_complete None 1768769999000 2 1 ''hello'' demo_db = (Json 110, after_first)
   \<and> fst (post_tasks_complete None 1768770001000 2 1 ''hello'' after_first) = Json 120
   \<and> map c_task (task_completions
                   (snd (post_tasks_complete None 1768770001000 2 1 ''hello'' after_first)))
       = [1, 1]"
proof -
  have "post_tasks_complete None 1768770001000 2 1 ''hello'' after_first
     = (Json 120,
        after_first\<lparr>users :=
            [\<lparr>user_id = 1, referred_by = None, balance_ksh = 500, bonus_ksh = 1100,
              delete_effective_at = None\<rparr>,
             \<lparr>user_id = 2, referred_by = Some 1, balance_ksh = 120, bonus_ksh = 0,
              delete_effective_at = None\<rparr>],
          task_completions :=
            [\<lparr>c_user = 2, c_task = 1, c_reward = 10, c_answer = ''hello'',
              c_created_at = 1768769999\<rparr>,
             \<lparr>c_user = 2, c_task = 1, c_reward = 10, c_answer = ''hello'',
              c_created_at = 1768770001\<rparr>]\<rparr>)"
    unfolding post_tasks_complete_def after_first_settled
    by (simp add: run_defs sqlite_datetime_def demo_db_def after_first_def)
  with demo_first_completion show ?thesis
    by simp
qed

section \<open>A store failure between the two writes\<close>

text \<open>
  C2 on the handler. The INSERT of the completion row and the UPDATE of the balance are
  two autocommitted statements. When the store rejects the UPDATE, the request throws,
  the row stays and the balance is what it was.
\<close>

theorem failed_credit_leaves_record:
  "fst (post_tasks_complete (Some 2) 1768769999000 2 1 ''hello'' demo_db) = Thrown
   \<and> map c_task (task_completions
                   (snd (post_tasks_complete (Some 2) 1768769999000 2 1 ''hello'' demo_db)))
       = [1]
   \<and> balance_of (snd (post_tasks_complete (Some 2) 1768769999000 2 1 ''hello'' demo_db)) 2
       = balance_of demo_db 2"
  unfolding post_tasks_complete_def demo_purged
  by (simp add: run_defs sqlite_datetime_def demo_db_def balance_of_def)

section \<open>Referral bonus\<close>

lemma bonus_of_credit:
  "bonus_of (update_user i (\<lambda>u. u\<lparr>balance_ksh := f u\<rparr>) s) j = bonus_of s j"
  by (cases "get_user s i") (auto simp: bonus_of_def get_user_update_user)

lemma bonus_of_fields [simp]:
  "bonus_of (s\<lparr>task_completions := c\<rparr>) j = bonus_of s j"
  "bonus_of (s\<lparr>referral_rewards := r\<rparr>) j = bonus_of s j"
  by (simp_all add: bonus_of_def)

lemma bonus_of_grant:
  "bonus_of (update_user r (\<lambda>u. u\<lparr>bonus_ksh := bonus_ksh u + 100\<rparr>) s) v
     = (if v = r then map_option (\<lambda>x. x + 100) (bonus_of s r) else bonus_of s v)"
  by (cases "get_user s r") (auto simp: bonus_of_def get_user_update_user)

lemma referral_bonus_skips:
  assumes "length (filter (\<lambda>c. c_user c = uid) (task_completions s)) \<noteq> 1
           \<or> (\<exists>me r. get_user s uid = Some me \<and> referred_by me = Some r
                \<and> find (\<lambda>x. rr_referrer x = r \<and> rr_referred x = uid) (referral_rewards s) \<noteq> None)"
  shows "referral_bonus flt uid s = (False, s)"
  using assms by (auto simp: referral_bonus_def Let_def split: option.splits)

lemma referral_bonus_grants:
  assumes "get_user s uid = Some me" and "referred_by me = Some r" and "0 < r"
    and "length (filter (\<lambda>c. c_user c = uid) (task_completions s)) = 1"
    and "find (\<lambda>x. rr_referrer x = r \<and> rr_referred x = uid) (referral_rewards s) = None"
  shows "referral_bonus None uid s =
           (False, update_user r (\<lambda>u. u\<lparr>bonus_ksh := bonus_ksh u + 100\<rparr>)
                     (s\<lparr>referral_rewards := referral_rewards s @
                          [\<lparr>rr_referrer = r, rr_referred = uid\<rparr>]\<rparr>))"
  using assms by (simp add: referral_bonus_def Let_def)

text \<open>
  C3. Let the user, after the sweep, exist with a referrer \<open>r\<close>. If the request is
  answered ok, the user had no completion row before it and no grant row for the pair
  exists, then the referrer's bonus grows by exactly 100, nobody else's bonus changes and
  exactly the grant row for the pair is appended. If the user already has a completion
  row, or the grant row already exists, then whatever the request does (also under a
  store failure) no bonus changes and no grant row is added.
\<close>

theorem referral_bonus_first_completion_only:
  assumes me: "get_user (purgeDeletedAccounts now s) uid = Some me"
    and r: "referred_by me = Some r" "0 < r"
  shows "(fst (post_tasks_complete None now uid taskId answer s) = Json b
          \<and> filter (\<lambda>c. c_user c = uid) (task_completions (purgeDeletedAccounts now s)) = []
          \<and> find (\<lambda>x. rr_referrer x = r \<and> rr_referred x = uid)
                  (referral_rewards (purgeDeletedAccounts now s)) = None
          \<longrightarrow> bonus_of (snd (post_tasks_complete None now uid taskId answer s)) r
                = map_option (\<lambda>x. x + 100) (bonus_of (purgeDeletedAccounts now s) r)
            \<and> (\<forall>v. v \<noteq> r \<longrightarrow> bonus_of (snd (post_tasks_complete None now uid taskId answer s)) v
                              = bonus_of (purgeDeletedAccounts now s) v)
            \<and> referral_rewards (snd (post_tasks_complete None now uid taskId answer s))
                = referral_rewards (purgeDeletedAccounts now s)
                  @ [\<lparr>rr_referrer = r, rr_referred = uid\<rparr>])
       \<and> (filter (\<lambda>c. c_user c = uid) (task_completions (purgeDeletedAccounts now s)) \<noteq> []
          \<or> find (\<lambda>x. rr_referrer x = r \<and> rr_referred x = uid)
                  (referral_rewards (purgeDeletedAccounts now s)) \<noteq> None
          \<longrightarrow> (\<forall>v. bonus_of (snd (post_tasks_complete flt now uid taskId answer s)) v
                     = bonus_of (purgeDeletedAccounts now s) v)
            \<and> referral_rewards (snd (post_tasks_complete flt now uid taskId answer s))
                = referral_rewards (purgeDeletedAccounts now s))"
proof -
  let ?p = "purgeDeletedAccounts now s"
  let ?mine = "\<lambda>s. filter (\<lambda>c. c_user c = uid) (task_completions s)"
  let ?row = "\<lambda>s. find (\<lambda>x. rr_referrer x = r \<and> rr_referred x = uid) (referral_rewards s)"
  have first: "bonus_of (snd (post_tasks_complete None now uid taskId answer s)) r
                = map_option (\<lambda>x. x + 100) (bonus_of ?p r)
            \<and> (\<forall>v. v \<noteq> r \<longrightarrow> bonus_of (snd (post_tasks_complete None now uid taskId answer s)) v
                              = bonus_of ?p v)
            \<and> referral_rewards (snd (post_tasks_complete None now uid taskId answer s))
                = referral_rewards ?p @ [\<lparr>rr_referrer = r, rr_referred = uid\<rparr>]"
    if ok: "fst (post_tasks_complete None now uid taskId answer s) = Json b"
      and none: "?mine ?p = []" and norow: "?row ?p = None"
  proof (cases rule: post_tasks_complete_cases [where flt = None and now = now and uid = uid
                      and taskId = taskId and answer = answer and s = s])
    case untouched
    with ok show ?thesis by simp
  next
    case (recorded t s1)
    then show ?thesis by simp
  next
    case (credited t s1)
    let ?s2 = "update_user uid (\<lambda>u. u\<lparr>balance_ksh := balance_ksh u + reward_ksh t\<rparr>) s1"
    note f = insert_completion_fields [OF credited(4)]
    have g1: "get_user s1 uid = Some me"
      using me f(1) by (simp add: get_user_def)
    have g2: "get_user ?s2 uid = Some (me\<lparr>balance_ksh := balance_ksh me + reward_ksh t\<rparr>)"
      using g1 by (simp add: get_user_update_user)
    have one: "length (?mine ?s2) = 1"
      using none by (simp add: f(6))
    have nr: "?row ?s2 = None"
      using norow by (simp add: f(5))
    have b1: "bonus_of s1 v = bonus_of ?p v" for v
      using f(1) by (simp add: bonus_of_def get_user_def)
    show ?thesis
      unfolding credited(6)
      using referral_bonus_grants [OF g2 _ r(2) one nr] r(1)
      by (simp add: f(5) bonus_of_grant bonus_of_credit b1)
  qed
  have later: "(\<forall>v. bonus_of (snd (post_tasks_complete flt now uid taskId answer s)) v
                     = bonus_of ?p v)
            \<and> referral_rewards (snd (post_tasks_complete flt now uid taskId answer s))
                = referral_rewards ?p"
    if some: "?mine ?p \<noteq> [] \<or> ?row ?p \<noteq> None"
  proof (cases rule: post_tasks_complete_cases [where flt = flt and now = now and uid = uid
                      and taskId = taskId and answer = answer and s = s])
    case untouched
    then show ?thesis by simp
  next
    case (recorded t s1)
    note f = insert_completion_fields [OF recorded(4)]
    show ?thesis using recorded(6) f(1,5) by (simp add: bonus_of_def get_user_def)
  next
    case (credited t s1)
    let ?s2 = "update_user uid (\<lambda>u. u\<lparr>balance_ksh := balance_ksh u + reward_ksh t\<rparr>) s1"
    note f = insert_completion_fields [OF credited(4)]
    have g1: "get_user s1 uid = Some me"
      using me f(1) by (simp add: get_user_def)
    have g2: "get_user ?s2 uid = Some (me\<lparr>balance_ksh := balance_ksh me + reward_ksh t\<rparr>)"
      using g1 by (simp add: get_user_update_user)
    have "length (?mine ?s2) \<noteq> 1 \<or> ?row ?s2 \<noteq> None"
      using some by (auto simp: f(5,6))
    then have "referral_bonus flt uid ?s2 = (False, ?s2)"
      using g2 r(1) by (intro referral_bonus_skips) auto
    moreover have "bonus_of s1 v = bonus_of ?p v" for v
      using f(1) by (simp add: bonus_of_def get_user_def)
    ultimately show ?thesis
      unfolding credited(6) by (simp add: f(5) bonus_of_credit)
  qed
  from first later show ?thesis by blast
qed


text \<open>
  User 1 referred user 2: the first completion of user 2 lifts user 1's bonus from 1000
  to 1100 and writes the grant row; the next completion leaves both as they are.
\<close>

theorem referral_bonus_first_completion_only_witness:
  "get_user (purgeDeletedAccounts 1768769999000 demo_db) 2
     = Some \<lparr>user_id = 2, referred_by = Some 1, balance_ksh = 100, bonus_ksh = 0,
              delete_effective_at = None\<rparr>
   \<and> bonus_of (purgeDeletedAccounts 1768769999000 demo_db) 1 = Some 1000
   \<and> bonus_of (snd (post_tasks_complete None 1768769999000 2 1 ''hello'' demo_db)) 1 = Some 1100
   \<and> referral_rewards (snd (post_tasks_complete None 1768769999000 2 1 ''hello'' demo_db))
       = [\<lparr>rr_referrer = 1, rr_referred = 2\<rparr>]
   \<and> bonus_of (snd (post_tasks_complete None 1768770001000 2 3 ''a cat'' after_first)) 1
       = Some 1100
   \<and> referral_rewards (snd (post_tasks_complete None 1768770001000 2 3 ''a cat'' after_first))
       = [\<lparr>rr_referrer = 1, rr_referred = 2\<rparr>]"
proof -
  have u1: "get_user (purgeDeletedAccounts 1768769999000 demo_db) 2
     = Some \<lparr>user_id = 2, referred_by = Some 1, balance_ksh = 100, bonus_ksh = 0,
              delete_effective_at = None\<rparr>"
    unfolding demo_purged by (simp add: get_user_def demo_db_def)
  have u2: "get_user (purgeDeletedAccounts 1768770001000 after_first) 2
     = Some \<lparr>user_id = 2, referred_by = Some 1, balance_ksh = 110, bonus_ksh = 0,
              delete_effective_at = None\<rparr>"
    unfolding after_first_settled by (simp add: get_user_def after_first_def)
  have b: "bonus_of (purgeDeletedAccounts 1768769999000 demo_db) 1 = Some 1000"
    unfolding demo_purged by (simp add: bonus_of_def get_user_def demo_db_def)
  have e1: "filter (\<lambda>c. c_user c = 2)
              (task_completions (purgeDeletedAccounts 1768769999000 demo_db)) = []"
    unfolding demo_purged by simp
  have e2: "find (\<lambda>x. rr_referrer x = 1 \<and> rr_referred x = 2)
              (referral_rewards (purgeDeletedAccounts 1768769999000 demo_db)) = None"
    unfolding demo_purged by simp
  have l: "filter (\<lambda>c. c_user c = 2)
              (task_completions (purgeDeletedAccounts 1768770001000 after_first)) \<noteq> []"
    unfolding after_first_settled by (simp add: after_first_def)
  have b2: "bonus_of after_first 1 = Some 1100"
    by (simp add: bonus_of_def get_user_def after_first_def)
  have r2: "referral_rewards after_first = [\<lparr>rr_referrer = 1, rr_referred = 2\<rparr>]"
    by (simp add: after_first_def)
  have o: "fst (post_tasks_complete None 1768769999000 2 1 ''hello'' demo_db) = Json 110"
    using demo_first_completion by simp
  show ?thesis
    using u1 b e1 e2 l b2 r2 o
      referral_bonus_first_completion_only
        [OF u1, where r = 1 and taskId = 1 and answer = "''hello''" and b = 110]
      referral_bonus_first_completion_only
        [OF u2, where r = 1 and taskId = 3 and answer = "''a cat''" and flt = None]
    by (simp add: after_first_settled demo_purged)
qed


section \<open>Daily assignment\<close>

lemma fold_insert_daily:
  assumes "distinct (map f ts)" and "set (map f ts) \<inter> set (daily_tasks s) = {}"
  shows "daily_tasks (fold (\<lambda>t. insert_or_ignore_daily (f t)) ts s) = daily_tasks s @ map f ts"
  using assms
proof (induction ts arbitrary: s)
  case Nil
  then show ?case by simp
next
  case (Cons t ts)
  let ?s = "insert_or_ignore_daily (f t) s"
  have s': "daily_tasks ?s = daily_tasks s @ [f t]"
    using Cons.prems(2) by (simp add: insert_or_ignore_daily_def)
  have "set (map f ts) \<inter> set (daily_tasks ?s) = {}"
    using Cons.prems by (auto simp: s')
  with Cons.IH [of ?s] Cons.prems(1) show ?case
    by (simp add: s')
qed

lemma filter_key_singleton:
  assumes "distinct (map f xs)" and "p \<in> set xs"
  shows "filter (\<lambda>t. f t = f p) xs = [p]"
  using assms
proof (induction xs)
  case Nil
  then show ?case by simp
next
  case (Cons x xs)
  show ?case
  proof (cases "x = p")
    case True
    have "filter (\<lambda>t. f t = f p) ys = []" if "f p \<notin> f ` set ys" for ys
      using that by (induction ys) auto
    then have "filter (\<lambda>t. f t = f p) xs = []"
      using Cons.prems(1) True by simp
    with True show ?thesis by simp
  next
    case False
    with Cons.prems have "p \<in> set xs" "f x \<noteq> f p" by auto
    with Cons show ?thesis by simp
  qed
qed

lemma concat_lookup:
  assumes "distinct (map f xs)" and "set ps \<subseteq> set xs"
  shows "concat (map (\<lambda>p. filter (\<lambda>t. f t = f p) xs) ps) = ps"
  using assms(2) by (induction ps) (simp_all add: filter_key_singleton [OF assms(1)])

lemma shuffle_props:
  assumes "mset ys = mset xs" and "distinct (map f xs)"
  shows "set ys = set xs" "length ys = length xs" "distinct (map f ys)"
proof -
  show "set ys = set xs" using assms(1) by (rule mset_eq_setD)
  show "length ys = length xs" using assms(1) by (rule mset_eq_length)
  have "mset (map f ys) = mset (map f xs)" using assms(1) by simp
  then show "distinct (map f ys)"
    using assms(2) by (metis mset_eq_imp_distinct_iff)
qed

text \<open>
  A fresh draw, made when fewer than five of today's assignments join to a task: the
  first five of the shuffled active tasks, written back so that the next read of today's
  assignments returns exactly them.
\<close>

lemma ensure_fresh:
  assumes few: "length (todays_tasks s uid (dayUTC now)) < 5"
    and ids: "distinct (map task_id (tasks s))"
    and sh: "mset (rnd (filter active (tasks s))) = mset (filter active (tasks s))"
  shows "fst (ensureDailyTasks rnd now uid s) = take 5 (rnd (filter active (tasks s)))"
    and "tasks (snd (ensureDailyTasks rnd now uid s)) = tasks s"
    and "todays_tasks (snd (ensureDailyTasks rnd now uid s)) uid (dayUTC now)
           = sort_key task_id (take 5 (rnd (filter active (tasks s))))"
    and "distinct (map task_id (fst (ensureDailyTasks rnd now uid s)))"
    and "set (fst (ensureDailyTasks rnd now uid s)) \<subseteq> set (filter active (tasks s))"
    and "length (fst (ensureDailyTasks rnd now uid s)) = min 5 (length (filter active (tasks s)))"
proof -
  let ?today = "dayUTC now"
  let ?act = "filter active (tasks s)"
  let ?picked = "take 5 (rnd ?act)"
  let ?s1 = "s\<lparr>daily_tasks := filter (\<lambda>d. \<not> (d_user d = uid \<and> d_day d = ?today)) (daily_tasks s)\<rparr>"
  let ?mk = "\<lambda>t. \<lparr>d_user = uid, d_day = ?today, d_task = task_id t\<rparr>"
  have da: "distinct (map task_id ?act)"
    using ids by (simp add: distinct_map_filter)
  note p = shuffle_props [OF sh da]
  have dp: "distinct (map task_id ?picked)"
    using p(3) by (simp add: take_map [symmetric])
  have sub: "set ?picked \<subseteq> set (tasks s)"
    using p(1) by (auto dest: in_set_takeD)
  have res: "ensureDailyTasks rnd now uid s
             = (?picked, fold (\<lambda>t. insert_or_ignore_daily (?mk t)) ?picked ?s1)"
    using few by (simp add: ensureDailyTasks_def Let_def)
  show "fst (ensureDailyTasks rnd now uid s) = ?picked" by (simp add: res)
  show "tasks (snd (ensureDailyTasks rnd now uid s)) = tasks s" by (simp add: res)
  show "distinct (map task_id (fst (ensureDailyTasks rnd now uid s)))" using dp by (simp add: res)
  show "set (fst (ensureDailyTasks rnd now uid s)) \<subseteq> set ?act"
    using p(1) by (auto simp: res dest: in_set_takeD)
  show "length (fst (ensureDailyTasks rnd now uid s)) = min 5 (length ?act)"
    using p(2) by (simp add: res min_def)
  have inj: "distinct (map ?mk ?picked)"
    using dp by (simp add: distinct_map inj_on_def)
  have disj: "set (map ?mk ?picked) \<inter> set (daily_tasks ?s1) = {}"
    by auto
  have rows: "daily_tasks (fold (\<lambda>t. insert_or_ignore_daily (?mk t)) ?picked ?s1)
                = daily_tasks ?s1 @ map ?mk ?picked"
    using fold_insert_daily [OF inj disj] .
  have none: "filter (\<lambda>d. d_user d = uid \<and> d_day d = ?today)
                (filter (\<lambda>d. \<not> (d_user d = uid \<and> d_day d = ?today)) xs) = []" for xs
    by (induction xs) auto
  have d1: "daily_tasks ?s1
              = filter (\<lambda>d. \<not> (d_user d = uid \<and> d_day d = ?today)) (daily_tasks s)"
    by simp
  have mine: "filter (\<lambda>d. d_user d = uid \<and> d_day d = ?today) (map ?mk ?picked) = map ?mk ?picked"
    by (induction ?picked) auto
  have "filter (\<lambda>d. d_user d = uid \<and> d_day d = ?today)
          (daily_tasks (fold (\<lambda>t. insert_or_ignore_daily (?mk t)) ?picked ?s1))
        = map ?mk ?picked"
    unfolding rows d1 filter_append none mine by simp
  note mine_rows = this
  have ins: "insort_key d_task (?mk p) (map ?mk xs) = map ?mk (insort_key task_id p xs)" for p xs
    by (induction xs) auto
  have srt: "sort_key d_task (map ?mk ps) = map ?mk (sort_key task_id ps)" for ps
    by (induction ps) (simp_all add: ins)
  have "todays_tasks (fold (\<lambda>t. insert_or_ignore_daily (?mk t)) ?picked ?s1) uid ?today
          = concat (map (\<lambda>p. filter (\<lambda>t. task_id t = task_id p) (tasks s))
                        (sort_key task_id ?picked))"
    unfolding todays_tasks_def mine_rows srt by (simp add: comp_def)
  also have "\<dots> = sort_key task_id ?picked"
    using concat_lookup [OF ids, of "sort_key task_id ?picked"] sub by simp
  finally show "todays_tasks (snd (ensureDailyTasks rnd now uid s)) uid (dayUTC now)
                  = sort_key task_id ?picked"
    by (simp add: res)
qed

text \<open>
  C5, as the function implements it. It never returns more than five tasks. A fresh
  draw returns the first five of the shuffled active tasks: pairwise different tasks,
  all active, and all of them when fewer than five are active. Categories are not
  looked at.
\<close>

theorem ensureDailyTasks_at_most_five:
  "length (fst (ensureDailyTasks rnd now uid s)) \<le> 5
   \<and> (length (todays_tasks s uid (dayUTC now)) < 5
      \<and> distinct (map task_id (tasks s))
      \<and> mset (rnd (filter active (tasks s))) = mset (filter active (tasks s))
      \<longrightarrow> fst (ensureDailyTasks rnd now uid s) = take 5 (rnd (filter active (tasks s)))
        \<and> distinct (map task_id (fst (ensureDailyTasks rnd now uid s)))
        \<and> set (fst (ensureDailyTasks rnd now uid s)) \<subseteq> set (filter active (tasks s))
        \<and> length (fst (ensureDailyTasks rnd now uid s))
            = min 5 (length (filter active (tasks s))))"
proof -
  have "length (fst (ensureDailyTasks rnd now uid s)) \<le> 5"
    by (simp add: ensureDailyTasks_def Let_def)
  then show ?thesis
    using ensure_fresh(1,4,5,6) [of s uid now rnd] by blast
qed

lemma demo_ids: "distinct (map task_id (tasks demo_db))"
  by (simp add: demo_db_def)

lemma demo_user1_unassigned: "todays_tasks demo_db 1 (dayUTC 1768769999000) = []"
  by (simp add: todays_tasks_def demo_db_def)

text \<open>User 1 has no assignment yet; with the draw in reverse catalog order it gets
  tasks 6, 5, 4, 3, 2.\<close>

theorem ensureDailyTasks_at_most_five_witness:
  "length (todays_tasks demo_db 1 (dayUTC 1768769999000)) < 5
   \<and> distinct (map task_id (tasks demo_db))
   \<and> mset (rev (filter active (tasks demo_db))) = mset (filter active (tasks demo_db))
   \<and> map task_id (fst (ensureDailyTasks rev 1768769999000 1 demo_db)) = [6, 5, 4, 3, 2]"
proof -
  have few: "length (todays_tasks demo_db 1 (dayUTC 1768769999000)) < 5"
    using demo_user1_unassigned by simp
  have sh: "mset (rev (filter active (tasks demo_db))) = mset (filter active (tasks demo_db))"
    by simp
  have "take 5 (rev (filter active (tasks demo_db))) = take 5 (rev (tasks demo_db))"
    by (simp add: demo_db_def)
  then show ?thesis
    using few demo_ids sh ensureDailyTasks_at_most_five [of rev 1768769999000 1 demo_db]
    by (simp add: demo_db_def)
qed

text \<open>
  C5 as stated fails: with the draw in catalog order user 1 gets tasks 1 to 5, two of
  them audio transcriptions, although the catalog holds five different categories.
\<close>

theorem ensureDailyTasks_repeats_category_counterexample:
  "map category (fst (ensureDailyTasks (\<lambda>xs. xs) 1768769999000 1 demo_db))
     = [''audio_transcription'', ''audio_transcription'', ''image_caption'',
        ''video_transcription'', ''image_tagging'']
   \<and> \<not> distinct (map category (fst (ensureDailyTasks (\<lambda>xs. xs) 1768769999000 1 demo_db)))
   \<and> length (remdups (map category (filter active (tasks demo_db)))) = 5"
proof -
  have "fst (ensureDailyTasks (\<lambda>xs. xs) 1768769999000 1 demo_db) = take 5 (tasks demo_db)"
    using demo_user1_unassigned
    by (simp add: ensureDailyTasks_def Let_def) (simp add: demo_db_def)
  then show ?thesis
    by (simp add: demo_db_def)
qed

text \<open>
  C6, as the function implements it. Once five of today's assignments join to a task,
  a call returns the first five of them and writes nothing, whatever the draw and
  whatever the catalog's active flags. And two calls in a row on the same day, with the
  catalog unchanged in between, return the same set of tasks the second time, whatever
  the two draws.
\<close>

theorem ensureDailyTasks_settles:
  "(5 \<le> length (todays_tasks s uid (dayUTC now)) \<longrightarrow>
      ensureDailyTasks rnd now uid s = (take 5 (todays_tasks s uid (dayUTC now)), s))
   \<and> (distinct (map task_id (tasks s))
      \<and> mset (rnd (filter active (tasks s))) = mset (filter active (tasks s))
      \<and> mset (rnd' (filter active (tasks s))) = mset (filter active (tasks s))
      \<and> dayUTC now' = dayUTC now
      \<longrightarrow> set (fst (ensureDailyTasks rnd' now' uid (snd (ensureDailyTasks rnd now uid s))))
          = set (fst (ensureDailyTasks rnd now uid s)))"
proof -
  let ?act = "filter active (tasks s)"
  let ?s2 = "snd (ensureDailyTasks rnd now uid s)"
  have frozen: "ensureDailyTasks r n uid s = (take 5 (todays_tasks s uid (dayUTC now)), s)"
    if "5 \<le> length (todays_tasks s uid (dayUTC now))" "dayUTC n = dayUTC now" for r n
    using that by (simp add: ensureDailyTasks_def Let_def)
  have again: "set (fst (ensureDailyTasks rnd' now' uid ?s2)) = set (fst (ensureDailyTasks rnd now uid s))"
    if ids: "distinct (map task_id (tasks s))"
      and sh: "mset (rnd ?act) = mset ?act" and sh': "mset (rnd' ?act) = mset ?act"
      and day: "dayUTC now' = dayUTC now"
  proof (cases "5 \<le> length (todays_tasks s uid (dayUTC now))")
    case True
    then show ?thesis by (simp add: frozen day)
  next
    case False
    then have few: "length (todays_tasks s uid (dayUTC now)) < 5" by simp
    note f = ensure_fresh [where rnd = rnd, OF few ids sh]
    show ?thesis
    proof (cases "5 \<le> length (take 5 (rnd ?act))")
      case True
      then have "ensureDailyTasks rnd' now' uid ?s2
                   = (take 5 (sort_key task_id (take 5 (rnd ?act))), ?s2)"
        using f(3) by (simp add: ensureDailyTasks_def Let_def day)
      then show ?thesis by (simp add: f(1))
    next
      case False
      then have short: "length ?act < 5"
        using mset_eq_length [OF sh] by simp
      have few2: "length (todays_tasks ?s2 uid (dayUTC now')) < 5"
        using False by (simp add: day f(3))
      have "fst (ensureDailyTasks rnd' now' uid ?s2) = take 5 (rnd' ?act)"
        using ensure_fresh(1) [where s = ?s2 and now = now' and uid = uid and rnd = rnd']
          few2 ids sh' by (simp add: f(2))
      then have "set (fst (ensureDailyTasks rnd' now' uid ?s2)) = set ?act"
        using short mset_eq_length [OF sh'] mset_eq_setD [OF sh'] by simp
      moreover have "set (fst (ensureDailyTasks rnd now uid s)) = set ?act"
        using short mset_eq_length [OF sh] mset_eq_setD [OF sh] by (simp add: f(1))
      ultimately show ?thesis by simp
    qed
  qed
  from frozen [of now rnd] again show ?thesis by blast
qed


lemma drawn_today:
  "map task_id (todays_tasks drawn_db 1 (dayUTC 1768770001000)) = [2, 3, 4, 5, 6]"
  by (simp add: todays_tasks_def drawn_db_def demo_db_def demo_clock)

text \<open>User 1 with five assignments is served them unchanged; user 1 without any is
  served the same five by a second call two seconds after the first.\<close>

theorem ensureDailyTasks_settles_witness:
  "5 \<le> length (todays_tasks drawn_db 1 (dayUTC 1768770001000))
   \<and> ensureDailyTasks (\<lambda>xs. xs) 1768770001000 1 drawn_db
       = (take 5 (todays_tasks drawn_db 1 (dayUTC 1768770001000)), drawn_db)
   \<and> distinct (map task_id (tasks demo_db))
   \<and> mset (rev (filter active (tasks demo_db))) = mset (filter active (tasks demo_db))
   \<and> dayUTC 1768770001000 = dayUTC 1768769999000
   \<and> set (fst (ensureDailyTasks (\<lambda>xs. xs) 1768770001000 1
                 (snd (ensureDailyTasks rev 1768769999000 1 demo_db))))
       = set (fst (ensureDailyTasks rev 1768769999000 1 demo_db))"
proof -
  have five: "5 \<le> length (todays_tasks drawn_db 1 (dayUTC 1768770001000))"
    using arg_cong [OF drawn_today, of length] by simp
  have sh: "mset (rev (filter active (tasks demo_db))) = mset (filter active (tasks demo_db))"
    by simp
  have sh': "mset ((\<lambda>xs. xs) (filter active (tasks demo_db))) = mset (filter active (tasks demo_db))"
    by simp
  have day: "dayUTC 1768770001000 = dayUTC 1768769999000"
    by (simp add: demo_clock dayUTC_demo)
  show ?thesis
    using five demo_ids sh sh' day
      ensureDailyTasks_settles [where s = drawn_db and uid = 1 and now = 1768770001000
        and rnd = "\<lambda>xs. xs"]
      ensureDailyTasks_settles [where s = demo_db and uid = 1 and now = 1768769999000
        and rnd = rev and rnd' = "\<lambda>xs. xs" and now' = 1768770001000]
    by simp
qed

text \<open>
  C6 as stated fails while fewer than five assignments exist: user 2 holds tasks 1, 3
  and 4 for today; the next call deletes them and draws again, here tasks 6, 5, 4, 3, 2,
  so the assignment of task 1 is gone.
\<close>

theorem ensureDailyTasks_redraws_counterexample:
  "map task_id (todays_tasks demo_db 2 (dayUTC 1768769999000)) = [1, 3, 4]
   \<and> map task_id (fst (ensureDailyTasks rev 1768769999000 2 demo_db)) = [6, 5, 4, 3, 2]
   \<and> map d_task (filter (\<lambda>d. d_user d = 2)
                    (daily_tasks (snd (ensureDailyTasks rev 1768769999000 2 demo_db))))
       = [6, 5, 4, 3, 2]"
  by (simp add: ensureDailyTasks_def Let_def todays_tasks_def dayUTC_demo demo_db_def
        insert_or_ignore_daily_def)


section \<open>The day key\<close>

lemma year_from_sum:
  "year_from y0 n = (y, r) \<Longrightarrow> y0 \<le> y \<and> n = sum days_in_year {y0..<y} + r"
proof (induction y0 n rule: year_from.induct)
  case (1 y0 n)
  show ?case
  proof (cases "n < days_in_year y0")
    case True
    with "1.prems" show ?thesis by (simp add: year_from.simps)
  next
    case False
    with "1.prems" have "year_from (Suc y0) (n - days_in_year y0) = (y, r)"
      by (simp add: year_from.simps)
    from "1.IH" [OF False this]
    have ih: "Suc y0 \<le> y" "n - days_in_year y0 = sum days_in_year {Suc y0..<y} + r"
      by simp_all
    have "sum days_in_year {y0..<y} = days_in_year y0 + sum days_in_year {Suc y0..<y}"
      using ih(1) by (simp add: sum.atLeast_Suc_lessThan)
    with ih False show ?thesis by arith
  qed
qed

lemma month_from_sum:
  "month_from y m0 n = (m, r) \<Longrightarrow>
     m0 \<le> m \<and> n = sum (days_in_month y) {m0..<m} + r \<and> r < days_in_month y m
     \<and> 28 * (m - m0) \<le> n"
proof (induction y m0 n rule: month_from.induct)
  case (1 y m0 n)
  show ?case
  proof (cases "n < days_in_month y m0")
    case True
    with "1.prems" show ?thesis by (simp add: month_from.simps)
  next
    case False
    with "1.prems" have "month_from y (Suc m0) (n - days_in_month y m0) = (m, r)"
      by (simp add: month_from.simps)
    from "1.IH" [OF False this] have ih: "Suc m0 \<le> m"
      "n - days_in_month y m0 = sum (days_in_month y) {Suc m0..<m} + r"
      "r < days_in_month y m" "28 * (m - Suc m0) \<le> n - days_in_month y m0"
      by simp_all
    have "28 \<le> days_in_month y m0" by (simp add: days_in_month_def)
    moreover have "sum (days_in_month y) {m0..<m}
                   = days_in_month y m0 + sum (days_in_month y) {Suc m0..<m}"
      using ih(1) by (simp add: sum.atLeast_Suc_lessThan)
    ultimately show ?thesis using ih False by arith
  qed
qed

lemma days_in_month_le: "days_in_month y m \<le> 31"
  by (simp add: days_in_month_def)

lemma year_from_rest: "year_from y0 n = (y, r) \<Longrightarrow> r < days_in_year y"
proof (induction y0 n rule: year_from.induct)
  case (1 y0 n)
  then show ?case
    by (cases "n < days_in_year y0") (simp_all add: year_from.simps)
qed

text \<open>The day number is recovered from the date: \<open>date_of_day\<close> is injective.\<close>

lemma date_of_day_parts:
  assumes "date_of_day n = (y, m, d)"
  shows "n = sum days_in_year {1970..<y} + sum (days_in_month y) {1..<m} + (d - 1)"
    and "1 \<le> m" and "m \<le> 14" and "1 \<le> d" and "d \<le> 31" and "1970 \<le> y"
proof -
  obtain y' r where yr: "year_from 1970 n = (y', r)" by (cases "year_from 1970 n")
  obtain m' r' where mr: "month_from y' 1 r = (m', r')" by (cases "month_from y' 1 r")
  from assms yr mr have eq: "y = y'" "m = m'" "d = Suc r'"
    by (simp_all add: date_of_day_def)
  note Y = year_from_sum [OF yr] and M = month_from_sum [OF mr]
  have "r < 366" using year_from_rest [OF yr] by (simp add: days_in_year_def split: if_splits)
  with M have "28 * (m' - 1) < 366" by simp
  then show "m \<le> 14" using eq by simp
  show "1 \<le> m" using M eq by simp
  show "1 \<le> d" using eq by simp
  show "d \<le> 31" using M eq days_in_month_le [of y' m'] by simp
  show "1970 \<le> y" using Y eq by simp
  show "n = sum days_in_year {1970..<y} + sum (days_in_month y) {1..<m} + (d - 1)"
    using Y M eq by simp
qed

lemma date_of_day_inj: "date_of_day a = date_of_day b \<Longrightarrow> a = b"
proof -
  assume e: "date_of_day a = date_of_day b"
  obtain y m d where b: "date_of_day b = (y, m, d)" by (cases "date_of_day b") auto
  with e have a: "date_of_day a = (y, m, d)" by simp
  from date_of_day_parts(1) [OF a] date_of_day_parts(1) [OF b] show "a = b" by simp
qed



lemma digit_inj: "digit a = digit b \<Longrightarrow> a mod 10 = b mod 10"
proof -
  assume "digit a = digit b"
  moreover have "distinct ''0123456789''" by simp
  moreover have "a mod 10 < length ''0123456789''" "b mod 10 < length ''0123456789''"
    by simp_all
  ultimately show ?thesis
    unfolding digit_def by (simp only: nth_eq_iff_index_eq)
qed

lemma div_mod_10_eq: "a div 10 = b div 10 \<Longrightarrow> a mod 10 = b mod 10 \<Longrightarrow> a = (b::nat)"
  by (metis div_mult_mod_eq)

lemma pad2_inj:
  assumes "pad2 a = pad2 b" and "a < 100" and "b < 100"
  shows "a = b"
proof -
  from assms(1) have c: "digit (a div 10) = digit (b div 10)" "digit a = digit b"
    by (simp_all add: pad2_def)
  have "a div 10 < 10" "b div 10 < 10" using assms(2,3) by simp_all
  with digit_inj [OF c(1)] have "a div 10 = b div 10" by simp
  then show ?thesis using digit_inj [OF c(2)] by (rule div_mod_10_eq)
qed

lemma pad4_inj:
  assumes "pad4 a = pad4 b" and "a < 10000" and "b < 10000"
  shows "a = b"
proof -
  from assms(1) have c: "digit (a div 1000) = digit (b div 1000)"
    "digit (a div 100) = digit (b div 100)" "digit (a div 10) = digit (b div 10)"
    "digit a = digit b"
    by (simp_all add: pad4_def)
  note d = c [THEN digit_inj]
  have "a div 1000 < 10" "b div 1000 < 10" using assms(2,3) by simp_all
  with d(1) have "a div 1000 = b div 1000" by simp
  then have "(a div 100) div 10 = (b div 100) div 10"
    using div_mult2_eq [of a 100 10] div_mult2_eq [of b 100 10] by simp
  then have "a div 100 = b div 100" using d(2) by (rule div_mod_10_eq)
  then have "(a div 10) div 10 = (b div 10) div 10"
    using div_mult2_eq [of a 10 10] div_mult2_eq [of b 10 10] by simp
  then have "a div 10 = b div 10" using d(3) by (rule div_mod_10_eq)
  then show ?thesis using d(4) by (rule div_mod_10_eq)
qed

lemma iso_date_inj:
  assumes "take 10 (iso_date (y, m, d)) = take 10 (iso_date (y', m', d'))"
    and "y \<le> 9999" "y' \<le> 9999" "m < 100" "m' < 100" "d < 100" "d' < 100"
  shows "(y, m, d) = (y', m', d')"
proof -
  have l: "length (pad4 n) = 4" "length (pad2 n) = 2" for n
    by (simp_all add: pad4_def pad2_def)
  from assms(1-3) have "pad4 y @ ''-'' @ pad2 m @ ''-'' @ pad2 d
                        = pad4 y' @ ''-'' @ pad2 m' @ ''-'' @ pad2 d'"
    by (simp add: iso_date_def l)
  then have e: "pad4 y = pad4 y'" "pad2 m = pad2 m'" "pad2 d = pad2 d'"
    by (simp_all add: l)
  have "y = y'" using e(1) assms(2,3) by (intro pad4_inj) simp_all
  moreover have "m = m'" using e(2) assms(4,5) by (rule pad2_inj)
  moreover have "d = d'" using e(3) assms(6,7) by (rule pad2_inj)
  ultimately show ?thesis by simp
qed




lemma mod_decomp: "(x::nat) mod D = r \<Longrightarrow> x = D * (x div D) + r"
  by auto

lemma div_decomp: "(x::nat) = D * q + r \<Longrightarrow> r < D \<Longrightarrow> x div D = q"
  by simp

text \<open>
  C7, as \<^verbatim>\<open>dayUTC\<close> implements it. For instants whose UTC year has four digits, two
  instants get the same key exactly when they lie in the same UTC day: the key changes at
  UTC midnight. An instant at 23:59:59 UTC and the instant two seconds later get different
  keys; an instant at 23:59:59 on the Nairobi wall clock and the instant two seconds
  later, 00:00:01 in Nairobi, get the same key.
\<close>

theorem dayUTC_resets_at_utc_midnight:
  assumes "fst (date_of_day (a div 86400000)) \<le> 9999"
    and "fst (date_of_day (b div 86400000)) \<le> 9999"
  shows "(dayUTC a = dayUTC b \<longleftrightarrow> a div 86400000 = b div 86400000)
       \<and> (a mod 86400000 = 86399000 \<and> b = a + 2000 \<longrightarrow> dayUTC a \<noteq> dayUTC b)
       \<and> (nairobi_wall_clock a mod 86400000 = 86399000 \<and> b = a + 2000
            \<longrightarrow> dayUTC a = dayUTC b)"
proof -
  have iff: "dayUTC a = dayUTC b \<longleftrightarrow> a div 86400000 = b div 86400000"
  proof
    assume k: "dayUTC a = dayUTC b"
    obtain y m d where da: "date_of_day (a div 86400000) = (y, m, d)"
      by (cases "date_of_day (a div 86400000)") auto
    obtain y' m' d' where db: "date_of_day (b div 86400000) = (y', m', d')"
      by (cases "date_of_day (b div 86400000)") auto
    note pa = date_of_day_parts [OF da] and pb = date_of_day_parts [OF db]
    have "(y, m, d) = (y', m', d')"
    proof (rule iso_date_inj)
      show "take 10 (iso_date (y, m, d)) = take 10 (iso_date (y', m', d'))"
        using k by (simp add: dayUTC_def da db)
      show "y \<le> 9999" "y' \<le> 9999" using assms by (simp_all add: da db)
      show "m < 100" "m' < 100" "d < 100" "d' < 100"
        using pa(3,5) pb(3,5) by simp_all
    qed
    then show "a div 86400000 = b div 86400000"
      using da db by (intro date_of_day_inj) simp
  next
    assume "a div 86400000 = b div 86400000"
    then show "dayUTC a = dayUTC b" by (simp add: dayUTC_def)
  qed
  have utc: "a div 86400000 \<noteq> b div 86400000"
    if h: "a mod 86400000 = 86399000" "b = a + 2000"
  proof -
    obtain q where a: "a = 86400000 * q + 86399000"
      using mod_decomp [OF h(1)] by blast
    then have b: "b = 86400000 * (q + 1) + 1000" using h(2) by simp
    have "a div 86400000 = q" using a by (rule div_decomp) simp
    moreover have "b div 86400000 = q + 1" using b by (rule div_decomp) simp
    ultimately show ?thesis by simp
  qed
  have nbi: "a div 86400000 = b div 86400000"
    if h: "nairobi_wall_clock a mod 86400000 = 86399000" "b = a + 2000"
  proof -
    have "(a + 10800000) mod 86400000 = 86399000"
      using h(1) by (simp only: nairobi_wall_clock_def) simp
    then obtain q where "a + 10800000 = 86400000 * q + 86399000"
      using mod_decomp by blast
    then have a: "a = 86400000 * q + 75599000" by simp
    then have b: "b = 86400000 * q + 75601000" using h(2) by simp
    have "a div 86400000 = q" using a by (rule div_decomp) simp
    moreover have "b div 86400000 = q" using b by (rule div_decomp) simp
    ultimately show ?thesis by simp
  qed
  from iff utc nbi show ?thesis by blast
qed


text \<open>
  2026-01-18 23:59:59 UTC and 2026-01-19 00:00:01 UTC: keys 2026-01-18 and 2026-01-19.
  2026-01-18 20:59:59 UTC is 23:59:59 in Nairobi; two seconds later the key is the same.
\<close>

theorem dayUTC_resets_at_utc_midnight_witness:
  "fst (date_of_day (1768780799000 div 86400000)) \<le> 9999
   \<and> fst (date_of_day (1768780801000 div 86400000)) \<le> 9999
   \<and> (1768780799000 :: nat) mod 86400000 = 86399000
   \<and> dayUTC 1768780799000 = ''2026-01-18''
   \<and> dayUTC 1768780801000 = ''2026-01-19''
   \<and> dayUTC 1768780799000 \<noteq> dayUTC 1768780801000
   \<and> nairobi_wall_clock 1768769999000 mod 86400000 = 86399000
   \<and> dayUTC 1768769999000 = dayUTC 1768770001000"
proof -
  have y: "fst (date_of_day (1768780799000 div 86400000)) \<le> 9999"
    "fst (date_of_day (1768780801000 div 86400000)) \<le> 9999"
    "fst (date_of_day (1768769999000 div 86400000)) \<le> 9999"
    "fst (date_of_day (1768770001000 div 86400000)) \<le> 9999"
    by (simp_all add: calendar_defs)
  have k: "dayUTC 1768780799000 = ''2026-01-18''" "dayUTC 1768780801000 = ''2026-01-19''"
    by (simp_all add: dayUTC_def calendar_defs)
  have m: "(1768780799000 :: nat) mod 86400000 = 86399000"
    "nairobi_wall_clock 1768769999000 mod 86400000 = 86399000"
    by (simp_all add: nairobi_wall_clock_def)
  show ?thesis
    using y k m
      dayUTC_resets_at_utc_midnight [OF y(1,2)]
      dayUTC_resets_at_utc_midnight [OF y(3,4)]
    by simp
qed

text \<open>
  C7 as stated fails: 23:59:59 on 18 January and 00:00:01 on 19 January, Nairobi time,
  are different Nairobi dates, one second before and one second after the reset the
  client's countdown announces, and \<^verbatim>\<open>dayUTC\<close> gives both the same key.
\<close>

theorem dayUTC_nairobi_midnight_counterexample:
  "nairobi_wall_clock 1768769999000 mod 86400000 = 86399000
   \<and> nairobi_wall_clock 1768770001000 mod 86400000 = 1000
   \<and> nairobi_wall_clock 1768769999000 div 86400000
       \<noteq> nairobi_wall_clock 1768770001000 div 86400000
   \<and> untilMidnight 1768769999000 = 1000
   \<and> dayUTC 1768769999000 = dayUTC 1768770001000"
  by (simp add: nairobi_wall_clock_def untilMidnight_def dayUTC_def)

end
